theory Spec2Isabelle
  imports Complex_Main "HOL-Library.Word"
begin

section \<open>JavaScript values used by the client\<close>

text \<open>
  Names of log groups and log streams, menu values and error messages are \<open>string\<close>s.
  Strings the program trims (the credential fields) are lists of UTF-16 code units, as
  JavaScript has them, because \<open>String.prototype.trim\<close> is defined on code points of the
  Basic Multilingual Plane.  Numbers that carry times are milliseconds since the epoch and
  are modelled as \<open>int\<close>.
\<close>

type_synonym js_string = "16 word list"

datatype js_error = Error (errName: string) (errMessage: string)

text \<open>\<open>src/lib/errors.js\<close>: \<open>class AWSError extends Error\<close>, with \<open>name = 'AWSError'\<close>.\<close>

definition AWSError :: "string \<Rightarrow> js_error" where
  "AWSError msg = Error ''AWSError'' msg"

text \<open>
  The result of awaiting an asynchronous function: it returns, it throws, or it stays
  pending because the environment never delivers what the function waits for.
\<close>

datatype 'a outcome = Return 'a | Throw js_error | Pending

subsection \<open>String operations\<close>

definition startsWith :: "string \<Rightarrow> string \<Rightarrow> bool" where
  "startsWith s p = (take (length p) s = p)"

definition endsWith :: "string \<Rightarrow> string \<Rightarrow> bool" where
  "endsWith s p = (length p \<le> length s \<and> drop (length s - length p) s = p)"

text \<open>\<open>slice(start, end)\<close> of strings and arrays: negative arguments count from the end.\<close>

definition clampIndex :: "nat \<Rightarrow> int \<Rightarrow> nat" where
  "clampIndex len i = (if i < 0 then nat (max (int len + i) 0) else min (nat i) len)"

definition slice :: "'a list \<Rightarrow> int \<Rightarrow> int \<Rightarrow> 'a list" where
  "slice xs start end =
     (let from = clampIndex (length xs) start; to = clampIndex (length xs) end
      in take (to - from) (drop from xs))"

definition sliceFrom :: "'a list \<Rightarrow> int \<Rightarrow> 'a list" where
  "sliceFrom xs start = drop (clampIndex (length xs) start) xs"

text \<open>\<open>indexOf(c)\<close>: the first position of the character, or \<open>-1\<close>.\<close>

fun indexOf :: "string \<Rightarrow> char \<Rightarrow> int" where
  "indexOf [] c = -1"
| "indexOf (x # xs) c =
     (if x = c then 0 else (let i = indexOf xs c in if i = -1 then -1 else i + 1))"

text \<open>
  \<open>lastIndexOf(c, position)\<close>: the last position of the character that is at most
  \<open>position\<close> (a negative \<open>position\<close> counts as 0), or \<open>-1\<close>.
\<close>

definition lastIndexOfFrom :: "string \<Rightarrow> char \<Rightarrow> int \<Rightarrow> int" where
  "lastIndexOfFrom s c position =
     (case filter (\<lambda>i. s ! i = c \<and> int i \<le> max position 0) (rev [0..<length s]) of
        [] \<Rightarrow> -1
      | i # _ \<Rightarrow> int i)"

definition lastIndexOf :: "string \<Rightarrow> char \<Rightarrow> int" where
  "lastIndexOf s c = lastIndexOfFrom s c (int (length s))"

section \<open>Credentials and the operator\<close>

record credentials =
  accessKeyId :: js_string
  secretAccessKey :: js_string
  sessionToken :: "js_string option"
  region :: string

text \<open>What the operator types into the four questions of \<open>getCredentialsFromUser\<close>.\<close>

record credential_answers =
  answerAccessKeyId :: js_string
  answerSecretAccessKey :: js_string
  answerSessionToken :: js_string
  answerRegion :: string

section \<open>Data of the logging service\<close>

record log_group =
  logGroupName :: string
  creationTime :: int

record log_stream =
  logStreamName :: string
  lastEventTimestamp :: "int option"

record event =
  timestamp :: int
  message :: string

text \<open>
  A paginated listing: the pages delivered, and the error that ends the iteration if the
  service reports one.
\<close>

type_synonym 'a paged = "'a list list \<times> js_error option"

text \<open>
  A line of the scrollback buffer: the yellow notice, or the green rendering
  \<open>[ISO time] message\<close> of an event, kept as its two components.  Timestamps of events,
  log groups and log streams are taken to be times that \<open>toISOString\<close> can render.
\<close>

datatype line = Notice string | EventLine int string

text \<open>A menu entry: what is displayed and the value the prompt returns for it.\<close>

datatype label = Text string | CreatedAt string int | LastEventAt string "int option"

datatype prompt =
    CredentialsPrompt
  | ListPrompt string "(label \<times> string) list"
  | ConfirmPrompt string

section \<open>The environment\<close>

text \<open>
  Everything outside the program is a script that the program consumes in order: the
  successive results of the three service calls, the operator's successive menu picks
  (an index into the choices displayed) and credential entries, the state of the
  configuration file, the clock and the host's time zone.  \<open>shown\<close> records the prompts
  displayed so far and \<open>sent\<close> every event query issued, with the \<open>startTime\<close> it
  carried and the reply it got; both are oldest first.  The spinner and the lines written
  to the console between prompts are left out.
\<close>

record world =
  logGroupPages :: "log_group paged list"
  logStreamPages :: "log_stream paged list"
  logEvents :: "(js_error + event list) list"
  picks :: "nat list"
  entered :: "credential_answers list"
  writeError :: "js_error option"
  configFile :: "credentials option"
  clock :: int
  localTZA :: "int \<Rightarrow> int"
  shown :: "prompt list"
  sent :: "(int \<times> (js_error + event list)) list"

text \<open>\<open>storeCredentials\<close>: overwrite the configuration file; the write may fail.\<close>

definition storeCredentials :: "credentials \<Rightarrow> world \<Rightarrow> unit outcome \<times> world" where
  "storeCredentials c w =
     (case writeError w of
        Some e \<Rightarrow> (Throw e, w)
      | None \<Rightarrow> (Return (), w\<lparr>configFile := Some c\<rparr>))"

text \<open>
  \<open>getCredentialsFromUser\<close>: display the credential questions and build the credential
  object; an empty session token becomes \<open>undefined\<close>.
\<close>

definition getCredentialsFromUser :: "world \<Rightarrow> credentials outcome \<times> world" where
  "getCredentialsFromUser w =
     (let w1 = w\<lparr>shown := shown w @ [CredentialsPrompt]\<rparr>
      in case entered w1 of
           [] \<Rightarrow> (Pending, w1)
         | a # rest \<Rightarrow>
             (Return \<lparr>accessKeyId = answerAccessKeyId a,
                      secretAccessKey = answerSecretAccessKey a,
                      sessionToken =
                        (if answerSessionToken a = [] then None else Some (answerSessionToken a)),
                      region = answerRegion a\<rparr>,
              w1\<lparr>entered := rest\<rparr>))"

definition handleExpiredToken :: "string \<Rightarrow> world \<Rightarrow> credentials outcome \<times> world" where
  "handleExpiredToken reg w =
     (case getCredentialsFromUser w of
        (Return newCredentials, w1) \<Rightarrow>
          (case storeCredentials newCredentials w1 of
             (Return _, w2) \<Rightarrow> (Return newCredentials, w2)
           | (Throw e, w2) \<Rightarrow> (Throw e, w2)
           | (Pending, w2) \<Rightarrow> (Pending, w2))
      | (Throw e, w1) \<Rightarrow> (Throw e, w1)
      | (Pending, w1) \<Rightarrow> (Pending, w1))"

definition isExpired :: "js_error \<Rightarrow> bool" where
  "isExpired e =
     (errName e = ''ExpiredTokenException'' \<or> errName e = ''UnrecognizedClientException'')"

section \<open>Tail loop\<close>

definition MAX_LOG_LINES :: nat where
  "MAX_LOG_LINES = 1000"

record tail_state =
  logBuffer :: "line list"
  startTime :: int
  lastFetchHadEvents :: bool
  liveCredentials :: credentials

text \<open>The state \<open>streamLogs\<close> starts with: ten minutes back from now, nothing buffered.\<close>

definition streamLogs_init :: "credentials \<Rightarrow> world \<Rightarrow> tail_state" where
  "streamLogs_init c w =
     \<lparr>logBuffer = [], startTime = clock w - 10 * 60 * 1000,
      lastFetchHadEvents = False, liveCredentials = c\<rparr>"

text \<open>
  The part of \<open>fetchLogs\<close> that runs once the reply \<open>data\<close> has arrived: append the
  notice or the events' lines, move \<open>startTime\<close>, set the flag.
\<close>

definition fetchLogs_append :: "tail_state \<Rightarrow> event list \<Rightarrow> tail_state" where
  "fetchLogs_append st events =
     (if length events = 0 then
        (let st1 = (if \<not> lastFetchHadEvents st
                    then st\<lparr>logBuffer := logBuffer st @ [Notice ''No log events found.'']\<rparr>
                    else st)
         in st1\<lparr>lastFetchHadEvents := False\<rparr>)
      else
        st\<lparr>logBuffer := logBuffer st @ map (\<lambda>e. EventLine (timestamp e) (message e)) events,
           startTime := timestamp (events ! (length events - 1)) + 1,
           lastFetchHadEvents := True\<rparr>)"

text \<open>The cap on the buffer: keep the last \<open>MAX_LOG_LINES\<close> lines.\<close>

definition fetchLogs_limit :: "tail_state \<Rightarrow> tail_state" where
  "fetchLogs_limit st =
     (if length (logBuffer st) > MAX_LOG_LINES
      then st\<lparr>logBuffer :=
                sliceFrom (logBuffer st) (int (length (logBuffer st)) - int MAX_LOG_LINES)\<rparr>
      else st)"

definition fetchLogs_onData :: "tail_state \<Rightarrow> event list \<Rightarrow> tail_state" where
  "fetchLogs_onData st events = fetchLogs_limit (fetchLogs_append st events)"

text \<open>
  \<open>fetchLogs\<close>, for a call during which no other call of \<open>fetchLogs\<close> runs: send one query
  carrying the current \<open>startTime\<close>.  On an expired or unrecognised token, ask the operator
  for new credentials, copy them into the live credential object and call \<open>fetchLogs\<close>
  again; any other error is wrapped and thrown.  The calls that the timer lets overlap are
  modelled by \<open>timerStep\<close> below.
\<close>

function fetchLogs :: "string \<Rightarrow> tail_state \<Rightarrow> world \<Rightarrow> unit outcome \<times> tail_state \<times> world" where
  "fetchLogs reg st w =
     (case logEvents w of
        [] \<Rightarrow> (Pending, st, w)
      | reply # rest \<Rightarrow>
          (let w1 = w\<lparr>logEvents := rest, sent := sent w @ [(startTime st, reply)]\<rparr>
           in case reply of
                Inr events \<Rightarrow> (Return (), fetchLogs_onData st events, w1)
              | Inl error \<Rightarrow>
                  if isExpired error then
                    (case handleExpiredToken reg w1 of
                       (Return newCredentials, w2) \<Rightarrow>
                         fetchLogs reg
                           (st\<lparr>liveCredentials := (liveCredentials st)
                                  \<lparr>accessKeyId := accessKeyId newCredentials,
                                   secretAccessKey := secretAccessKey newCredentials,
                                   sessionToken := sessionToken newCredentials\<rparr>\<rparr>)
                           w2
                     | (Throw e, w2) \<Rightarrow> (Throw e, st, w2)
                     | (Pending, w2) \<Rightarrow> (Pending, st, w2))
                  else
                    (Throw (AWSError (''An error occurred while fetching log events: ''
                                       @ errMessage error)), st, w1)))"
  by pat_completeness auto

lemma handleExpiredToken_logEvents:
  "handleExpiredToken reg w = (r, w') \<Longrightarrow> logEvents w' = logEvents w"
  by (auto simp: handleExpiredToken_def getCredentialsFromUser_def storeCredentials_def Let_def
           split: list.splits option.splits prod.splits outcome.splits)

termination fetchLogs
  by (relation "measure (\<lambda>(reg, st, w). length (logEvents w))")
     (auto dest!: handleExpiredToken_logEvents [OF sym])

declare fetchLogs.simps [simp del]

text \<open>
  The first \<open>n\<close> ticks of the timer in the runs where every call of \<open>fetchLogs\<close> completes
  before the next tick.  These are runs of the timer as modelled below
  (\<open>pollTicks_is_run\<close>); the timer itself does not wait for a call to complete.
\<close>

fun pollTicks :: "nat \<Rightarrow> string \<Rightarrow> tail_state \<Rightarrow> world \<Rightarrow> unit outcome \<times> tail_state \<times> world" where
  "pollTicks 0 reg st w = (Return (), st, w)"
| "pollTicks (Suc n) reg st w =
     (case fetchLogs reg st w of
        (Return _, st1, w1) \<Rightarrow> pollTicks n reg st1 w1
      | (Throw e, st1, w1) \<Rightarrow> (Throw e, st1, w1)
      | (Pending, st1, w1) \<Rightarrow> (Pending, st1, w1))"

subsection \<open>The timer\<close>

text \<open>
  \<open>setInterval(fetchLogs, 2000)\<close>: every tick starts a call of \<open>fetchLogs\<close>, whether or not
  earlier calls have completed, and all calls read and write the same \<open>logBuffer\<close>,
  \<open>startTime\<close> and \<open>lastFetchHadEvents\<close>.  A call is suspended while its query is in flight
  and while \<open>handleExpiredToken\<close> waits for the operator; each phase records the
  \<open>startTime\<close> that the call's last query carried.  Between suspensions a call runs
  without interruption.

  A schedule lists what happens, in order: a tick, the arrival of the next reply for the
  \<open>i\<close>-th suspended call, or the operator's next answers for the \<open>i\<close>-th suspended call.
  \<open>issued\<close> records every query in the order sent: the \<open>startTime\<close> it carries and, for a
  retry, the \<open>startTime\<close> of the query that failed.  A call that throws rejects a promise
  that nothing handles, which ends the process.
\<close>

datatype phase = InFlight int | AwaitingOperator int

datatype step = Tick | Reply nat | Operator nat

record timer =
  shared :: tail_state
  env :: world
  calls :: "phase list"
  issued :: "(int option \<times> int) list"
  rejected :: "js_error option"

definition streamLogs_start :: "credentials \<Rightarrow> world \<Rightarrow> timer" where
  "streamLogs_start c w =
     \<lparr>shared = streamLogs_init c w, env = w, calls = [], issued = [], rejected = None\<rparr>"

definition removeAt :: "nat \<Rightarrow> 'a list \<Rightarrow> 'a list" where
  "removeAt i xs = take i xs @ drop (Suc i) xs"

definition onTick :: "timer \<Rightarrow> timer" where
  "onTick s =
     s\<lparr>calls := calls s @ [InFlight (startTime (shared s))],
       issued := issued s @ [(None, startTime (shared s))]\<rparr>"

definition onReply :: "nat \<Rightarrow> timer \<Rightarrow> timer" where
  "onReply i s =
     (if i < length (calls s) then
        (case calls s ! i of
           AwaitingOperator t \<Rightarrow> s
         | InFlight t \<Rightarrow>
             (case logEvents (env s) of
                [] \<Rightarrow> s
              | reply # rest \<Rightarrow>
                  (let w1 = (env s)\<lparr>logEvents := rest, sent := sent (env s) @ [(t, reply)]\<rparr>
                   in case reply of
                        Inr events \<Rightarrow>
                          s\<lparr>shared := fetchLogs_onData (shared s) events, env := w1,
                            calls := removeAt i (calls s)\<rparr>
                      | Inl error \<Rightarrow>
                          if isExpired error then
                            s\<lparr>env := w1\<lparr>shown := shown w1 @ [CredentialsPrompt]\<rparr>,
                              calls := (calls s)[i := AwaitingOperator t]\<rparr>
                          else
                            s\<lparr>env := w1, calls := removeAt i (calls s),
                              rejected :=
                                Some (AWSError (''An error occurred while fetching log events: ''
                                                 @ errMessage error))\<rparr>)))
      else s)"

definition onOperator :: "nat \<Rightarrow> timer \<Rightarrow> timer" where
  "onOperator i s =
     (if i < length (calls s) then
        (case calls s ! i of
           InFlight t \<Rightarrow> s
         | AwaitingOperator t \<Rightarrow>
             (case entered (env s) of
                [] \<Rightarrow> s
              | a # rest \<Rightarrow>
                  (let newCredentials =
                         \<lparr>accessKeyId = answerAccessKeyId a,
                          secretAccessKey = answerSecretAccessKey a,
                          sessionToken =
                            (if answerSessionToken a = [] then None
                             else Some (answerSessionToken a)),
                          region = answerRegion a\<rparr>
                   in case storeCredentials newCredentials ((env s)\<lparr>entered := rest\<rparr>) of
                        (Return _, w2) \<Rightarrow>
                          s\<lparr>shared := (shared s)
                               \<lparr>liveCredentials := (liveCredentials (shared s))
                                  \<lparr>accessKeyId := accessKeyId newCredentials,
                                   secretAccessKey := secretAccessKey newCredentials,
                                   sessionToken := sessionToken newCredentials\<rparr>\<rparr>,
                            env := w2,
                            calls := (calls s)[i := InFlight (startTime (shared s))],
                            issued := issued s @ [(Some t, startTime (shared s))]\<rparr>
                      | (Throw e, w2) \<Rightarrow>
                          s\<lparr>env := w2, calls := removeAt i (calls s), rejected := Some e\<rparr>
                      | (Pending, w2) \<Rightarrow> s)))
      else s)"

fun timerStep :: "step \<Rightarrow> timer \<Rightarrow> timer" where
  "timerStep x s =
     (if rejected s \<noteq> None then s
      else case x of Tick \<Rightarrow> onTick s | Reply i \<Rightarrow> onReply i s | Operator i \<Rightarrow> onOperator i s)"

definition timerRun :: "step list \<Rightarrow> timer \<Rightarrow> timer" where
  "timerRun schedule s = fold timerStep schedule s"

text \<open>
  A schedule in which no tick comes while a call is suspended: no two calls overlap.
\<close>

fun sequential :: "step list \<Rightarrow> timer \<Rightarrow> bool" where
  "sequential [] s = True"
| "sequential (x # xs) s = ((x = Tick \<longrightarrow> calls s = []) \<and> sequential xs (timerStep x s))"

subsection \<open>The keypress listener\<close>

text \<open>
  The listener that \<open>streamLogs\<close> registers on standard input, as the list of actions it
  performs on one chunk of input (\<open>key.toString()\<close>), and their effect on the terminal.
\<close>

datatype action =
    ClearInterval
  | SetRawMode bool
  | PauseStdin
  | ConsoleLog string
  | PromptForBack

record terminal =
  timerActive :: bool
  rawMode :: bool
  stdinFlowing :: bool
  console :: "string list"
  backPrompts :: nat

definition stdin_on_data :: "string \<Rightarrow> action list" where
  "stdin_on_data key =
     (if key = ''q''
      then [ClearInterval, SetRawMode False, PauseStdin,
            ConsoleLog ''Stopped streaming logs.'', PromptForBack]
      else [])"

fun perform :: "action \<Rightarrow> terminal \<Rightarrow> terminal" where
  "perform ClearInterval t = t\<lparr>timerActive := False\<rparr>"
| "perform (SetRawMode b) t = t\<lparr>rawMode := b\<rparr>"
| "perform PauseStdin t = t\<lparr>stdinFlowing := False\<rparr>"
| "perform (ConsoleLog msg) t = t\<lparr>console := console t @ [msg]\<rparr>"
| "perform PromptForBack t = t\<lparr>backPrompts := Suc (backPrompts t)\<rparr>"

definition keypress :: "string \<Rightarrow> terminal \<Rightarrow> terminal" where
  "keypress key t = fold perform (stdin_on_data key) t"


section \<open>Credential validation\<close>

text \<open>
  The values \<open>JSON.parse\<close> and the prompt can produce.  \<open>Number x\<close> is a finite
  number; of a number only its type and its truthiness are observed here.
\<close>

datatype js_value =
    Undefined
  | Null
  | Boolean bool
  | Number real
  | String js_string
  | Array "js_value list"
  | Object "(string \<times> js_value) list"

fun truthy :: "js_value \<Rightarrow> bool" where
  "truthy Undefined = False"
| "truthy Null = False"
| "truthy (Boolean b) = b"
| "truthy (Number n) = (n \<noteq> 0)"
| "truthy (String s) = (s \<noteq> [])"
| "truthy (Array xs) = True"
| "truthy (Object props) = True"

fun typeof :: "js_value \<Rightarrow> string" where
  "typeof Undefined = ''undefined''"
| "typeof Null = ''object''"
| "typeof (Boolean b) = ''boolean''"
| "typeof (Number n) = ''number''"
| "typeof (String s) = ''string''"
| "typeof (Array xs) = ''object''"
| "typeof (Object props) = ''object''"

text \<open>
  Reading a property that is not an array index or a built-in: a \<open>TypeError\<close> on
  \<open>null\<close> and \<open>undefined\<close>, \<open>undefined\<close> on the other values that do not have it.
\<close>

fun getProp :: "js_value \<Rightarrow> string \<Rightarrow> js_error + js_value" where
  "getProp Undefined k = Inl (Error ''TypeError'' ''Cannot read properties of undefined'')"
| "getProp Null k = Inl (Error ''TypeError'' ''Cannot read properties of null'')"
| "getProp (Object props) k = (case map_of props k of Some v \<Rightarrow> Inr v | None \<Rightarrow> Inr Undefined)"
| "getProp v k = Inr Undefined"

text \<open>
  \<open>String.prototype.trim\<close> removes the white space and line terminators of ECMAScript
  from both ends.
\<close>

definition isWhiteSpace :: "16 word \<Rightarrow> bool" where
  "isWhiteSpace c =
     (c \<in> {0x0009, 0x000A, 0x000B, 0x000C, 0x000D, 0x0020, 0x00A0, 0x1680,
            0x2028, 0x2029, 0x202F, 0x205F, 0x3000, 0xFEFF}
      \<or> (0x2000 \<le> c \<and> c \<le> 0x200A))"

definition trim :: "js_string \<Rightarrow> js_string" where
  "trim s = rev (dropWhile isWhiteSpace (rev (dropWhile isWhiteSpace s)))"

fun callTrim :: "js_value \<Rightarrow> js_error + js_string" where
  "callTrim (String s) = Inr (trim s)"
| "callTrim v = Inl (Error ''TypeError'' ''trim is not a function'')"

definition bindE :: "'e + 'a \<Rightarrow> ('a \<Rightarrow> 'e + 'b) \<Rightarrow> 'e + 'b" where
  "bindE m f = (case m of Inl e \<Rightarrow> Inl e | Inr v \<Rightarrow> f v)"

text \<open>
  \<open>validateCredentials\<close>: the chain of \<open>&&\<close> yields its first falsy operand, or its last
  operand; an operand is evaluated only if all operands before it are truthy.
\<close>

definition validateCredentials :: "js_value \<Rightarrow> js_error + js_value" where
  "validateCredentials credentials =
     (if \<not> truthy credentials then Inr credentials else
      bindE (getProp credentials ''accessKeyId'') (\<lambda>a.
      if \<not> truthy a then Inr a else
      bindE (getProp credentials ''secretAccessKey'') (\<lambda>s.
      if \<not> truthy s then Inr s else
      if typeof a \<noteq> ''string'' then Inr (Boolean False) else
      if typeof s \<noteq> ''string'' then Inr (Boolean False) else
      bindE (callTrim a) (\<lambda>ta.
      if \<not> (ta \<noteq> []) then Inr (Boolean False) else
      bindE (callTrim s) (\<lambda>ts. Inr (Boolean (ts \<noteq> [])))))))"

text \<open>What \<open>if (validateCredentials(c))\<close> and \<open>!validateCredentials(c)\<close> test.\<close>

definition accepts :: "js_value \<Rightarrow> bool" where
  "accepts c = (case validateCredentials c of Inr v \<Rightarrow> truthy v | Inl e \<Rightarrow> False)"

section \<open>Local calendar dates\<close>

text \<open>
  \<open>new Date(t)\<close> is invalid outside the time range of ECMAScript, and every field of an
  invalid date is \<open>NaN\<close> (\<open>None\<close>).  The local fields are those of the day that contains
  \<open>t + localTZA t\<close>, in the proleptic Gregorian calendar; months count from 0.
\<close>

definition msPerDay :: int where
  "msPerDay = 86400000"

definition validTime :: "int \<Rightarrow> bool" where
  "validTime t = (\<bar>t\<bar> \<le> 8640000000000000)"

definition civil :: "int \<Rightarrow> int \<times> int \<times> int" where
  "civil days =
     (let z = days + 719468;
          era = z div 146097;
          doe = z - era * 146097;
          yoe = (doe - doe div 1460 + doe div 36524 - doe div 146096) div 365;
          doy = doe - (365 * yoe + yoe div 4 - yoe div 100);
          mp = (5 * doy + 2) div 153;
          d = doy - (153 * mp + 2) div 5 + 1;
          m = (if mp < 10 then mp + 3 else mp - 9);
          y = yoe + era * 400 + (if m \<le> 2 then 1 else 0)
      in (y, m - 1, d))"

definition localFields :: "(int \<Rightarrow> int) \<Rightarrow> int \<Rightarrow> (int \<times> int \<times> int) option" where
  "localFields tza t = (if validTime t then Some (civil ((t + tza t) div msPerDay)) else None)"

definition getFullYear :: "(int \<Rightarrow> int) \<Rightarrow> int \<Rightarrow> int option" where
  "getFullYear tza t = map_option fst (localFields tza t)"

definition getMonth :: "(int \<Rightarrow> int) \<Rightarrow> int \<Rightarrow> int option" where
  "getMonth tza t = map_option (\<lambda>f. fst (snd f)) (localFields tza t)"

definition getDate :: "(int \<Rightarrow> int) \<Rightarrow> int \<Rightarrow> int option" where
  "getDate tza t = map_option (\<lambda>f. snd (snd f)) (localFields tza t)"

text \<open>\<open>===\<close> on numbers: \<open>NaN\<close> equals nothing.\<close>

fun strictEq :: "int option \<Rightarrow> int option \<Rightarrow> bool" where
  "strictEq (Some a) (Some b) = (a = b)"
| "strictEq a b = False"

definition filterLogGroupsByDate :: "world \<Rightarrow> log_group list \<Rightarrow> string \<Rightarrow> log_group list" where
  "filterLogGroupsByDate w logGroups flt =
     (let now = clock w; tza = localTZA w
      in filter (\<lambda>group.
           let creationDate = creationTime group
           in if flt = ''all'' then True
              else if flt = ''year'' then
                strictEq (getFullYear tza creationDate) (getFullYear tza now)
              else if flt = ''month'' then
                strictEq (getFullYear tza creationDate) (getFullYear tza now) \<and>
                strictEq (getMonth tza creationDate) (getMonth tza now)
              else if flt = ''day'' then
                strictEq (getFullYear tza creationDate) (getFullYear tza now) \<and>
                strictEq (getMonth tza creationDate) (getMonth tza now) \<and>
                strictEq (getDate tza creationDate) (getDate tza now)
              else False) logGroups)"

section \<open>Namespace navigator\<close>

text \<open>
  \<open>fetchAllLogGroups\<close> and \<open>fetchAllLogStreams\<close>: iterate over the pages of the listing and
  collect their entries; an error of the paginator is thrown.
\<close>

definition fetchAllLogGroups :: "world \<Rightarrow> log_group list outcome \<times> world" where
  "fetchAllLogGroups w =
     (case logGroupPages w of
        [] \<Rightarrow> (Pending, w)
      | (pages, failure) # rest \<Rightarrow>
          (case failure of
             Some e \<Rightarrow> (Throw e, w\<lparr>logGroupPages := rest\<rparr>)
           | None \<Rightarrow> (Return (concat pages), w\<lparr>logGroupPages := rest\<rparr>)))"

definition fetchAllLogStreams :: "world \<Rightarrow> log_stream list outcome \<times> world" where
  "fetchAllLogStreams w =
     (case logStreamPages w of
        [] \<Rightarrow> (Pending, w)
      | (pages, failure) # rest \<Rightarrow>
          (case failure of
             Some e \<Rightarrow> (Throw e, w\<lparr>logStreamPages := rest\<rparr>)
           | None \<Rightarrow> (Return (concat pages), w\<lparr>logStreamPages := rest\<rparr>)))"

text \<open>
  A list prompt: the menu is displayed, and the operator's next pick selects one of its
  entries; the prompt returns that entry's value.  With no pick left, or a pick that is
  not on the menu, the prompt stays open.
\<close>

definition promptList :: "string \<Rightarrow> (label \<times> string) list \<Rightarrow> world \<Rightarrow> string outcome \<times> world" where
  "promptList msg choices w =
     (let w1 = w\<lparr>shown := shown w @ [ListPrompt msg choices]\<rparr>
      in case picks w1 of
           [] \<Rightarrow> (Pending, w1)
         | i # rest \<Rightarrow>
             if i < length choices then (Return (snd (choices ! i)), w1\<lparr>picks := rest\<rparr>)
             else (Pending, w1))"

text \<open>\<open>Array.from(new Set(xs))\<close>: the distinct elements, in order of first occurrence.\<close>

definition arrayFromSet :: "'a list \<Rightarrow> 'a list" where
  "arrayFromSet xs = foldl (\<lambda>acc x. if x \<in> set acc then acc else acc @ [x]) [] xs"

text \<open>The entries of the current level, and the next path segments below it.\<close>

definition matchingGroups :: "log_group list \<Rightarrow> string \<Rightarrow> string \<Rightarrow> log_group list" where
  "matchingGroups fetched mainLogGroup prefix =
     filter (\<lambda>group. startsWith (logGroupName group) (''/'' @ mainLogGroup @ prefix)) fetched"

definition subGroups :: "log_group list \<Rightarrow> string \<Rightarrow> string \<Rightarrow> string list" where
  "subGroups logGroups mainLogGroup prefix =
     arrayFromSet (map (\<lambda>group.
       let remainingPath =
             sliceFrom (logGroupName group) (int (length (''/'' @ mainLogGroup @ prefix)));
           nextSlashIndex = indexOf remainingPath CHR ''/''
       in if nextSlashIndex \<noteq> -1 then slice remainingPath 0 (nextSlashIndex + 1)
          else remainingPath) logGroups)"

text \<open>
  One pass through the \<open>try\<close> block of a selector: a value to return, a recursive call
  to make, an error for the \<open>catch\<close> block, or a wait that never ends.
\<close>

datatype nav_step = Selected string | Recurse string | Failed js_error | Stalled

definition getLogGroup_try :: "string \<Rightarrow> string \<Rightarrow> world \<Rightarrow> nav_step \<times> world" where
  "getLogGroup_try mainLogGroup prefix w =
     (case fetchAllLogGroups w of
        (Pending, w1) \<Rightarrow> (Stalled, w1)
      | (Throw e, w1) \<Rightarrow> (Failed e, w1)
      | (Return fetched, w1) \<Rightarrow>
          if length fetched = 0 then (Failed (AWSError ''No log groups found.''), w1)
          else
            (let logGroups = matchingGroups fetched mainLogGroup prefix;
                 subs = subGroups logGroups mainLogGroup prefix;
                 choices = map (\<lambda>group. (Text group, prefix @ group)) subs
             in if length choices > 1 \<or> (length choices = 1 \<and> endsWith (subs ! 0) ''/'') then
                  (case promptList ''Select Log Group:'' (choices @ [(Text ''Back'', ''back'')]) w1 of
                     (Return selectedGroup, w2) \<Rightarrow>
                       if selectedGroup = ''back'' then
                         (Recurse (slice prefix 0
                            (lastIndexOfFrom prefix CHR ''/'' (int (length prefix) - 2) + 1)), w2)
                       else if endsWith selectedGroup ''/'' then (Recurse selectedGroup, w2)
                       else (Selected (''/'' @ mainLogGroup @ selectedGroup), w2)
                   | (Throw e, w2) \<Rightarrow> (Failed e, w2)
                   | (Pending, w2) \<Rightarrow> (Stalled, w2))
                else
                  (case promptList ''Filter log groups by date:''
                          [(Text ''All'', ''all''), (Text ''This Year'', ''year''),
                           (Text ''This Month'', ''month''), (Text ''Today'', ''day'')] w1 of
                     (Return dateFilter, w2) \<Rightarrow>
                       (let filtered = filterLogGroupsByDate w2 logGroups dateFilter;
                            ordered = sort_key (\<lambda>group. - creationTime group) filtered;
                            finalChoices =
                              map (\<lambda>group. (CreatedAt (logGroupName group) (creationTime group),
                                              logGroupName group)) ordered
                        in case promptList ''Select Log Group:'' finalChoices w2 of
                             (Return answer, w3) \<Rightarrow> (Selected answer, w3)
                           | (Throw e, w3) \<Rightarrow> (Failed e, w3)
                           | (Pending, w3) \<Rightarrow> (Stalled, w3))
                   | (Throw e, w2) \<Rightarrow> (Failed e, w2)
                   | (Pending, w2) \<Rightarrow> (Stalled, w2))))"

lemma promptList_logGroupPages:
  "promptList msg choices w = (r, w') \<Longrightarrow> logGroupPages w' = logGroupPages w"
  by (auto simp: promptList_def Let_def split: list.splits if_splits)

lemma handleExpiredToken_logGroupPages:
  "handleExpiredToken reg w = (r, w') \<Longrightarrow> logGroupPages w' = logGroupPages w"
  by (auto simp: handleExpiredToken_def getCredentialsFromUser_def storeCredentials_def Let_def
           split: list.splits option.splits prod.splits outcome.splits)

lemma fetchAllLogGroups_consumes:
  "fetchAllLogGroups w = (r, w') \<Longrightarrow> r \<noteq> Pending \<Longrightarrow>
     length (logGroupPages w') < length (logGroupPages w)"
  by (auto simp: fetchAllLogGroups_def split: list.splits option.splits prod.splits)

lemma getLogGroup_try_consumes:
  assumes "getLogGroup_try mainLogGroup prefix w = (r, w')"
    and "r = Recurse p \<or> r = Failed e"
  shows "length (logGroupPages w') < length (logGroupPages w)"
proof -
  obtain f w1 where f: "fetchAllLogGroups w = (f, w1)"
    by (cases "fetchAllLogGroups w")
  have "f \<noteq> Pending"
    using assms f by (auto simp: getLogGroup_try_def)
  with f have less: "length (logGroupPages w1) < length (logGroupPages w)"
    by (rule fetchAllLogGroups_consumes)
  have "logGroupPages w' = logGroupPages w1"
    using assms(1) f
    by (auto simp: getLogGroup_try_def Let_def
          split: outcome.splits if_splits prod.splits
          dest!: promptList_logGroupPages)
  with less show ?thesis by simp
qed

text \<open>
  \<open>getLogGroup\<close>: the \<open>try\<close> block, then the \<open>catch\<close> block.  A recursive call is returned
  without being awaited, so what it throws is not caught here.
\<close>

function getLogGroup :: "string \<Rightarrow> credentials \<Rightarrow> string \<Rightarrow> string \<Rightarrow> world \<Rightarrow> string outcome \<times> world" where
  "getLogGroup reg creds mainLogGroup prefix w =
     (case getLogGroup_try mainLogGroup prefix w of
        (Selected path, w1) \<Rightarrow> (Return path, w1)
      | (Recurse prefix', w1) \<Rightarrow> getLogGroup reg creds mainLogGroup prefix' w1
      | (Stalled, w1) \<Rightarrow> (Pending, w1)
      | (Failed error, w1) \<Rightarrow>
          if isExpired error then
            (case handleExpiredToken reg w1 of
               (Return newCredentials, w2) \<Rightarrow> getLogGroup reg newCredentials mainLogGroup prefix w2
             | (Throw e, w2) \<Rightarrow> (Throw e, w2)
             | (Pending, w2) \<Rightarrow> (Pending, w2))
          else
            (Throw (AWSError (''An error occurred while fetching log groups: ''
                               @ errMessage error)), w1))"
  by pat_completeness auto

termination getLogGroup
proof (relation "measure (\<lambda>(reg, creds, mainLogGroup, prefix, w). length (logGroupPages w))")
  show "wf (measure (\<lambda>(reg, creds, mainLogGroup, prefix, w). length (logGroupPages w)))"
    by simp
next
  fix reg :: string and creds :: credentials and mainLogGroup prefix :: string
    and w w1 :: world and x p
  assume "(x, w1) = getLogGroup_try mainLogGroup prefix w" "x = Recurse p"
  then show "((reg, creds, mainLogGroup, p, w1), reg, creds, mainLogGroup, prefix, w)
      \<in> measure (\<lambda>(reg, creds, mainLogGroup, prefix, w). length (logGroupPages w))"
    using getLogGroup_try_consumes [of mainLogGroup prefix w x w1 p] by simp
next
  fix reg :: string and creds newc :: credentials and mainLogGroup prefix :: string
    and w w1 w2 :: world and x error r
  assume "(x, w1) = getLogGroup_try mainLogGroup prefix w" "x = Failed error"
    "(r, w2) = handleExpiredToken reg w1"
  then show "((reg, newc, mainLogGroup, prefix, w2), reg, creds, mainLogGroup, prefix, w)
      \<in> measure (\<lambda>(reg, creds, mainLogGroup, prefix, w). length (logGroupPages w))"
    using getLogGroup_try_consumes [of mainLogGroup prefix w x w1 _ error]
      handleExpiredToken_logGroupPages [of reg w1 r w2] by simp
qed

declare getLogGroup.simps [simp del]

section \<open>Stream selector\<close>

text \<open>\<open>x || 0\<close> on an optional number.\<close>

fun orZero :: "int option \<Rightarrow> int" where
  "orZero None = 0"
| "orZero (Some t) = t"

definition getLogStream_try :: "string \<Rightarrow> world \<Rightarrow> nav_step \<times> world" where
  "getLogStream_try logGroup w =
     (case fetchAllLogStreams w of
        (Pending, w1) \<Rightarrow> (Stalled, w1)
      | (Throw e, w1) \<Rightarrow> (Failed e, w1)
      | (Return fetched, w1) \<Rightarrow>
          if length fetched = 0 then (Failed (AWSError ''No log streams found.''), w1)
          else
            (let logStreams = sort_key (\<lambda>stream. - orZero (lastEventTimestamp stream)) fetched;
                 choices =
                   map (\<lambda>stream.
                          (LastEventAt (logStreamName stream)
                             (if orZero (lastEventTimestamp stream) \<noteq> 0
                              then lastEventTimestamp stream else None),
                           logStreamName stream)) logStreams
             in case promptList ''Select Log Stream:'' (choices @ [(Text ''Back'', ''back'')]) w1 of
                  (Return answer, w2) \<Rightarrow>
                    if answer = ''back'' then
                      (Recurse (slice logGroup 0 (lastIndexOf logGroup CHR ''/'' + 1)), w2)
                    else (Selected answer, w2)
                | (Throw e, w2) \<Rightarrow> (Failed e, w2)
                | (Pending, w2) \<Rightarrow> (Stalled, w2)))"

lemma promptList_logStreamPages:
  "promptList msg choices w = (r, w') \<Longrightarrow> logStreamPages w' = logStreamPages w"
  by (auto simp: promptList_def Let_def split: list.splits if_splits)

lemma handleExpiredToken_logStreamPages:
  "handleExpiredToken reg w = (r, w') \<Longrightarrow> logStreamPages w' = logStreamPages w"
  by (auto simp: handleExpiredToken_def getCredentialsFromUser_def storeCredentials_def Let_def
           split: list.splits option.splits prod.splits outcome.splits)

lemma getLogStream_try_consumes:
  assumes "getLogStream_try logGroup w = (Failed e, w')"
  shows "length (logStreamPages w') < length (logStreamPages w)"
proof -
  obtain f w1 where f: "fetchAllLogStreams w = (f, w1)"
    by (cases "fetchAllLogStreams w")
  have "f \<noteq> Pending"
    using assms f by (auto simp: getLogStream_try_def)
  with f have less: "length (logStreamPages w1) < length (logStreamPages w)"
    by (auto simp: fetchAllLogStreams_def split: list.splits option.splits prod.splits)
  have "logStreamPages w' = logStreamPages w1"
    using assms f
    by (auto simp: getLogStream_try_def Let_def
          split: outcome.splits if_splits prod.splits
          dest!: promptList_logStreamPages)
  with less show ?thesis by simp
qed

text \<open>
  \<open>getLogStream\<close>.  On \<open>back\<close> it returns what \<open>getLogGroup\<close> returns, called with the
  path cut after its last slash as \<open>mainLogGroup\<close> and the default prefix.
\<close>

function getLogStream :: "string \<Rightarrow> string \<Rightarrow> credentials \<Rightarrow> world \<Rightarrow> string outcome \<times> world" where
  "getLogStream reg logGroup creds w =
     (case getLogStream_try logGroup w of
        (Selected stream, w1) \<Rightarrow> (Return stream, w1)
      | (Recurse parent, w1) \<Rightarrow> getLogGroup reg creds parent [] w1
      | (Stalled, w1) \<Rightarrow> (Pending, w1)
      | (Failed error, w1) \<Rightarrow>
          if isExpired error then
            (case handleExpiredToken reg w1 of
               (Return newCredentials, w2) \<Rightarrow> getLogStream reg logGroup newCredentials w2
             | (Throw e, w2) \<Rightarrow> (Throw e, w2)
             | (Pending, w2) \<Rightarrow> (Pending, w2))
          else
            (Throw (AWSError (''An error occurred while fetching log streams: ''
                               @ errMessage error)), w1))"
  by pat_completeness auto

termination getLogStream
proof (relation "measure (\<lambda>(reg, logGroup, creds, w). length (logStreamPages w))")
  show "wf (measure (\<lambda>(reg, logGroup, creds, w). length (logStreamPages w)))"
    by simp
next
  fix reg logGroup :: string and creds newc :: credentials
    and w w1 w2 :: world and x error r
  assume "(x, w1) = getLogStream_try logGroup w" "x = Failed error"
    "(r, w2) = handleExpiredToken reg w1"
  then show "((reg, logGroup, newc, w2), reg, logGroup, creds, w)
      \<in> measure (\<lambda>(reg, logGroup, creds, w). length (logStreamPages w))"
    using getLogStream_try_consumes [of logGroup w error w1]
      handleExpiredToken_logStreamPages [of reg w1 r w2] by simp
qed

declare getLogStream.simps [simp del]

section \<open>Example inputs\<close>

definition exampleCredentials :: credentials where
  "exampleCredentials =
     \<lparr>accessKeyId = [0x41], secretAccessKey = [0x42], sessionToken = None, region = ''eu-west-1''\<rparr>"

definition emptyWorld :: world where
  "emptyWorld =
     \<lparr>logGroupPages = [], logStreamPages = [], logEvents = [], picks = [],
      entered = [], writeError = None, configFile = None, clock = 600000,
      localTZA = (\<lambda>t. 0), shown = [], sent = []\<rparr>"

definition tailWorld :: "(js_error + event list) list \<Rightarrow> world" where
  "tailWorld replies = emptyWorld\<lparr>logEvents := replies\<rparr>"

definition ev :: "int \<Rightarrow> event" where
  "ev t = \<lparr>timestamp = t, message = ''m''\<rparr>"

definition tailStart :: tail_state where
  "tailStart = streamLogs_init exampleCredentials emptyWorld"

definition exampleAnswers :: credential_answers where
  "exampleAnswers =
     \<lparr>answerAccessKeyId = [0x43], answerSecretAccessKey = [0x44], answerSessionToken = [],
      answerRegion = ''eu-west-1''\<rparr>"

definition retryWorld :: world where
  "retryWorld =
     emptyWorld\<lparr>logEvents := [Inl (Error ''ExpiredTokenException'' ''expired''),
                               Inr [ev 5], Inr []],
                 entered := [exampleAnswers]\<rparr>"

definition abcGroups :: "log_group list" where
  "abcGroups =
     [\<lparr>logGroupName = ''/a/b/c'', creationTime = 0\<rparr>,
      \<lparr>logGroupName = ''/a/b/d'', creationTime = 0\<rparr>,
      \<lparr>logGroupName = ''/a/e'', creationTime = 0\<rparr>]"

definition backWorld :: world where
  "backWorld =
     emptyWorld\<lparr>logStreamPages :=
                   [([[\<lparr>logStreamName = ''s1'', lastEventTimestamp = Some 5\<rparr>]], None)],
                 logGroupPages :=
                   [([[\<lparr>logGroupName = ''/a/b'', creationTime = 1\<rparr>,
                       \<lparr>logGroupName = ''//a/c'', creationTime = 2\<rparr>]], None)],
                 picks := [1, 0, 0]\<rparr>"

definition ordinaryWorld :: world where
  "ordinaryWorld =
     emptyWorld\<lparr>logStreamPages :=
                   [([[\<lparr>logStreamName = ''s1'', lastEventTimestamp = Some 5\<rparr>]], None)],
                 logGroupPages :=
                   [([[\<lparr>logGroupName = ''/a/b/c'', creationTime = 1\<rparr>,
                       \<lparr>logGroupName = ''/a/b/d'', creationTime = 2\<rparr>]], None)],
                 picks := [1, 0, 0]\<rparr>"

text \<open>The local calendar day of a time: year, month counted from 0, day of the month.\<close>

definition localDay :: "world \<Rightarrow> int \<Rightarrow> int \<times> int \<times> int" where
  "localDay w t = civil ((t + localTZA w t) div msPerDay)"

definition dateWorld :: world where
  "dateWorld = emptyWorld\<lparr>clock := 1730419200000, localTZA := (\<lambda>t. 3600000)\<rparr>"

definition datedGroups :: "log_group list" where
  "datedGroups =
     [\<lparr>logGroupName = ''/a/today'', creationTime = 1730415600001\<rparr>,
      \<lparr>logGroupName = ''/a/october'', creationTime = 1727740800000\<rparr>,
      \<lparr>logGroupName = ''/a/lastyear'', creationTime = 1700000000000\<rparr>,
      \<lparr>logGroupName = ''/a/yesterday'', creationTime = 1730415599999\<rparr>]"

definition overlapWorld :: world where
  "overlapWorld = emptyWorld\<lparr>logEvents := [Inr [ev 150], Inr [ev 100], Inr []]\<rparr>"

definition overlapRetryWorld :: world where
  "overlapRetryWorld =
     emptyWorld\<lparr>logEvents := [Inl (Error ''ExpiredTokenException'' ''expired''), Inr [ev 150]],
                 entered := [exampleAnswers]\<rparr>"

definition overlapRun :: timer where
  "overlapRun =
     timerRun [Tick, Tick, Reply 0, Tick, Reply 0, Reply 0, Tick]
       (streamLogs_start exampleCredentials overlapWorld)"

definition overlapRetryRun :: timer where
  "overlapRetryRun =
     timerRun [Tick, Reply 0, Tick, Reply 1, Operator 0]
       (streamLogs_start exampleCredentials overlapRetryWorld)"

definition sequentialSchedule :: "step list" where
  "sequentialSchedule = [Tick, Reply 0, Operator 0, Reply 0, Tick, Reply 0]"

section \<open>Properties of the tail loop\<close>

text \<open>
  Two states agree on what the tail loop reads and writes, whatever credentials they hold.
\<close>

definition sameTail :: "tail_state \<Rightarrow> tail_state \<Rightarrow> bool" where
  "sameTail st st0 \<longleftrightarrow> logBuffer st0 = logBuffer st \<and> startTime st0 = startTime st \<and>
     lastFetchHadEvents st0 = lastFetchHadEvents st"

text \<open>The lines one reply adds to the buffer, given the flag left by the previous fetch.\<close>

definition pushed :: "bool \<Rightarrow> event list \<Rightarrow> line list" where
  "pushed hadEvents events =
     (if events = [] then (if hadEvents then [] else [Notice ''No log events found.''])
      else map (\<lambda>e. EventLine (timestamp e) (message e)) events)"

text \<open>
  Every event of every reply is at or after the \<open>startTime\<close> of the query it answers.
\<close>

definition eventsNotBefore :: "(int \<times> (js_error + event list)) list \<Rightarrow> bool" where
  "eventsNotBefore exchanges =
     (\<forall>(t, reply)\<in>set exchanges. case reply of Inr events \<Rightarrow> (\<forall>e\<in>set events. t \<le> timestamp e) | Inl _ \<Rightarrow> True)"

text \<open>Every retry carries the \<open>startTime\<close> of the query that failed.\<close>

definition retriesResend :: "(int option \<times> int) list \<Rightarrow> bool" where
  "retriesResend queries =
     (\<forall>(origin, t)\<in>set queries. case origin of None \<Rightarrow> True | Some t0 \<Rightarrow> t = t0)"

text \<open>
  What holds between the steps of a schedule without overlap: at most one call is
  suspended, its query carried the current \<open>startTime\<close>, and the queries issued so far
  never went back.
\<close>

fun watermarkOf :: "phase \<Rightarrow> int" where
  "watermarkOf (InFlight t) = t"
| "watermarkOf (AwaitingOperator t) = t"

definition inStep :: "timer \<Rightarrow> bool" where
  "inStep s \<longleftrightarrow>
     length (calls s) \<le> 1 \<and> (\<forall>c\<in>set (calls s). watermarkOf c = startTime (shared s)) \<and>
     sorted (map snd (issued s) @ [startTime (shared s)]) \<and> retriesResend (issued s)"

lemma handleExpiredToken_sent:
  "handleExpiredToken reg w = (r, w') \<Longrightarrow> sent w' = sent w"
  by (auto simp: handleExpiredToken_def getCredentialsFromUser_def storeCredentials_def Let_def
           split: list.splits option.splits prod.splits outcome.splits)

lemma fetchLogs_trace:
  "fetchLogs reg st w = (oc, st', w') \<Longrightarrow>
     \<exists>k. sent w' = sent w @ map (Pair (startTime st)) (take k (logEvents w)) \<and>
           logEvents w' = drop k (logEvents w) \<and> k \<le> length (logEvents w) \<and>
           (case oc of
              Return _ \<Rightarrow> 0 < k \<and> (\<exists>st0 events. logEvents w ! (k - 1) = Inr events \<and>
                            sameTail st st0 \<and> st' = fetchLogs_onData st0 events)
            | _ \<Rightarrow> sameTail st st')"
proof (induction reg st w arbitrary: oc st' w' rule: fetchLogs.induct)
  case (1 reg st w)
  show ?case
  proof (cases "logEvents w")
    case Nil
    with "1.prems" show ?thesis
      by (subst (asm) fetchLogs.simps) (auto simp: sameTail_def intro!: exI [of _ 0])
  next
    case (Cons reply rest)
    define w1 where "w1 = w\<lparr>logEvents := rest, sent := sent w @ [(startTime st, reply)]\<rparr>"
    show ?thesis
    proof (cases reply)
      case (Inr events)
      with Cons "1.prems" show ?thesis
        by (subst (asm) fetchLogs.simps) (auto simp: sameTail_def intro!: exI [of _ 1])
    next
      case (Inl error)
      show ?thesis
      proof (cases "isExpired error")
        case False
        with Inl Cons "1.prems" show ?thesis
          by (subst (asm) fetchLogs.simps) (auto simp: sameTail_def intro!: exI [of _ 1])
      next
        case True
        obtain r w2 where h: "handleExpiredToken reg w1 = (r, w2)"
          by (cases "handleExpiredToken reg w1")
        have w2: "sent w2 = sent w1" "logEvents w2 = logEvents w1"
          using h handleExpiredToken_sent handleExpiredToken_logEvents by blast+
        show ?thesis
        proof (cases r)
          case (Return newc)
          define st1 where "st1 = st\<lparr>liveCredentials := (liveCredentials st)
                                  \<lparr>accessKeyId := accessKeyId newc,
                                   secretAccessKey := secretAccessKey newc,
                                   sessionToken := sessionToken newc\<rparr>\<rparr>"
          have rec: "fetchLogs reg st1 w2 = (oc, st', w')"
            using "1.prems" Cons Inl True h Return
            by (subst (asm) fetchLogs.simps) (simp add: w1_def st1_def)
          note ih = "1.IH" [OF Cons refl Inl True h [unfolded w1_def, symmetric] Return
                  rec [unfolded st1_def], folded st1_def]
          then obtain k where k: "sent w' = sent w2 @ map (Pair (startTime st1)) (take k (logEvents w2))"
             "logEvents w' = drop k (logEvents w2)" "k \<le> length (logEvents w2)"
             "(case oc of
              Return _ \<Rightarrow> 0 < k \<and> (\<exists>st0 events. logEvents w2 ! (k - 1) = Inr events \<and>
                            sameTail st1 st0 \<and> st' = fetchLogs_onData st0 events)
            | _ \<Rightarrow> sameTail st1 st')"
            by blast
          have st1: "startTime st1 = startTime st"
            by (simp add: st1_def)
          have same: "sameTail st1 x = sameTail st x" for x
            by (simp add: sameTail_def st1_def)
          show ?thesis
            using k
            apply (intro exI [of _ "Suc k"])
            apply (simp add: w2 w1_def Cons same st1 split: outcome.splits)
            done
        next
          case (Throw e)
          with Inl Cons "1.prems" True h w2 show ?thesis
            by (subst (asm) fetchLogs.simps) (auto simp: sameTail_def w1_def intro!: exI [of _ 1])
        next
          case Pending
          with Inl Cons "1.prems" True h w2 show ?thesis
            by (subst (asm) fetchLogs.simps) (auto simp: sameTail_def w1_def intro!: exI [of _ 1])
        qed
      qed
    qed
  qed
qed

lemma sliceFrom_keep_last:
  "n < length xs \<Longrightarrow> sliceFrom xs (int (length xs) - int n) = drop (length xs - n) xs"
  by (simp add: sliceFrom_def clampIndex_def nat_diff_distrib' min_def)

lemma logBuffer_limit:
  "logBuffer (fetchLogs_limit st) = drop (length (logBuffer st) - MAX_LOG_LINES) (logBuffer st)"
  by (simp add: fetchLogs_limit_def sliceFrom_keep_last)

lemma startTime_limit: "startTime (fetchLogs_limit st) = startTime st"
  by (simp add: fetchLogs_limit_def)

lemma flag_limit: "lastFetchHadEvents (fetchLogs_limit st) = lastFetchHadEvents st"
  by (simp add: fetchLogs_limit_def)

lemma logBuffer_append:
  "logBuffer (fetchLogs_append st events) = logBuffer st @ pushed (lastFetchHadEvents st) events"
  by (simp add: fetchLogs_append_def pushed_def Let_def)

lemma startTime_append:
  "startTime (fetchLogs_append st events) =
     (if events = [] then startTime st else timestamp (last events) + 1)"
  by (simp add: fetchLogs_append_def Let_def last_conv_nth)

lemma flag_append:
  "lastFetchHadEvents (fetchLogs_append st events) = (events \<noteq> [])"
  by (simp add: fetchLogs_append_def Let_def)

lemma logBuffer_onData:
  "logBuffer (fetchLogs_onData st events) =
     drop (length (logBuffer st @ pushed (lastFetchHadEvents st) events) - MAX_LOG_LINES)
          (logBuffer st @ pushed (lastFetchHadEvents st) events)"
  by (simp only: fetchLogs_onData_def logBuffer_limit logBuffer_append)

lemma startTime_onData:
  "startTime (fetchLogs_onData st events) =
     (if events = [] then startTime st else timestamp (last events) + 1)"
  by (simp only: fetchLogs_onData_def startTime_limit startTime_append)

lemma flag_onData:
  "lastFetchHadEvents (fetchLogs_onData st events) = (events \<noteq> [])"
  by (simp only: fetchLogs_onData_def flag_limit flag_append)

lemma fetchLogs_returns:
  assumes "fetchLogs reg st w = (Return u, st', w')"
  shows "\<exists>st0 events. sent w' \<noteq> [] \<and> last (sent w') = (startTime st, Inr events) \<and>
           sameTail st st0 \<and> st' = fetchLogs_onData st0 events"
proof -
  from fetchLogs_trace [OF assms] obtain k st0 events where
    k: "sent w' = sent w @ map (Pair (startTime st)) (take k (logEvents w))"
       "k \<le> length (logEvents w)" "0 < k" "logEvents w ! (k - 1) = Inr events"
       "sameTail st st0" "st' = fetchLogs_onData st0 events"
    by auto
  from k(2,3) have "take k (logEvents w) \<noteq> []" by auto
  moreover from k(2,3) have "last (take k (logEvents w)) = logEvents w ! (k - 1)"
    by (cases k) (simp_all add: last_conv_nth take_Suc_conv_app_nth min_absorb2)
  ultimately show ?thesis
    using k by (auto simp: last_map)
qed


lemma fetchLogs_events:
  "logEvents w = Inr events # rest \<Longrightarrow>
     fetchLogs reg st w =
       (Return (), fetchLogs_onData st events,
        w\<lparr>logEvents := rest, sent := sent w @ [(startTime st, Inr events)]\<rparr>)"
  by (subst fetchLogs.simps) simp

lemma sorted_Max_last:
  fixes xs :: "int list"
  assumes "sorted xs" "xs \<noteq> []"
  shows "Max (set xs) = last xs"
proof (rule Max_eqI)
  fix y assume y: "y \<in> set xs"
  from assms(2) have "xs = butlast xs @ [last xs]" by simp
  with assms(1) have "sorted (butlast xs @ [last xs])" by simp
  then have "\<forall>x\<in>set (butlast xs). x \<le> last xs"
    by (simp add: sorted_append)
  with y assms(2) show "y \<le> last xs"
    by (metis \<open>xs = butlast xs @ [last xs]\<close> in_set_butlast_appendI order_refl
          rotate1.simps(2) set_ConsD set_rotate1)
qed (use assms in simp_all)

lemma keep_last_twice:
  "drop (length (drop (length b - m) b @ y) - m) (drop (length b - m) b @ y) =
   drop (length (b @ y) - m) (b @ y)"
  by (cases "length b \<le> m") (simp_all add: add.commute)

lemma eventsNotBefore_append:
  "eventsNotBefore (xs @ ys) \<longleftrightarrow> eventsNotBefore xs \<and> eventsNotBefore ys"
  by (auto simp: eventsNotBefore_def)

subsection \<open>Runs of the timer\<close>

lemma sorted_snoc_le:
  fixes a b :: int
  shows "sorted (xs @ [a]) \<Longrightarrow> a \<le> b \<Longrightarrow> sorted (xs @ [b]) \<and> sorted (xs @ [a, b])"
  by (auto simp: sorted_append)

lemma retriesResend_snoc:
  "retriesResend (qs @ [q]) \<longleftrightarrow>
     retriesResend qs \<and> (case fst q of None \<Rightarrow> True | Some t0 \<Rightarrow> snd q = t0)"
  by (cases q) (auto simp: retriesResend_def split: option.splits)

lemma onTick_inStep:
  assumes "inStep s" and "calls s = []"
  shows "inStep (onTick s) \<and> startTime (shared (onTick s)) = startTime (shared s)"
  using assms sorted_snoc_le [of "map snd (issued s)" "startTime (shared s)" "startTime (shared s)"]
  by (simp add: inStep_def onTick_def retriesResend_snoc)

lemma onReply_sent: "\<exists>new. sent (env (onReply i s)) = sent (env s) @ new"
  by (auto simp: onReply_def Let_def split: phase.splits list.splits sum.splits)

lemma onOperator_sent: "sent (env (onOperator i s)) = sent (env s)"
  by (auto simp: onOperator_def Let_def storeCredentials_def
           split: phase.splits list.splits option.splits)

lemma timerStep_sent: "\<exists>new. sent (env (timerStep x s)) = sent (env s) @ new"
  using onReply_sent [of _ s]
  by (cases x) (auto simp: onTick_def onOperator_sent)

lemma timerRun_sent: "\<exists>new. sent (env (timerRun schedule s)) = sent (env s) @ new"
proof (induction schedule arbitrary: s)
  case Nil
  then show ?case by (simp add: timerRun_def)
next
  case (Cons x xs)
  from timerStep_sent [of x s] obtain n1 where "sent (env (timerStep x s)) = sent (env s) @ n1"
    by blast
  moreover from Cons [of "timerStep x s"] obtain n2 where
    "sent (env (timerRun xs (timerStep x s))) = sent (env (timerStep x s)) @ n2" by blast
  ultimately show ?case by (simp add: timerRun_def)
qed

lemma onReply_inStep:
  assumes "inStep s" and "eventsNotBefore (sent (env (onReply i s)))"
  shows "inStep (onReply i s) \<and> startTime (shared s) \<le> startTime (shared (onReply i s))"
proof (cases "i < length (calls s)")
  case False
  with assms show ?thesis by (simp add: onReply_def)
next
  case True
  with assms(1) obtain c where c: "calls s = [c]" "i = 0"
    by (cases "calls s") (auto simp: inStep_def)
  show ?thesis
  proof (cases c)
    case (AwaitingOperator t)
    with c assms show ?thesis by (simp add: onReply_def)
  next
    case (InFlight t)
    with c assms(1) have t: "t = startTime (shared s)" by (simp add: inStep_def)
    show ?thesis
    proof (cases "logEvents (env s)")
      case Nil
      with c InFlight assms show ?thesis by (simp add: onReply_def)
    next
      case (Cons reply rest)
      show ?thesis
      proof (cases reply)
        case (Inr events)
        have r: "onReply i s = s\<lparr>shared := fetchLogs_onData (shared s) events,
                    env := (env s)\<lparr>logEvents := rest, sent := sent (env s) @ [(t, reply)]\<rparr>,
                    calls := []\<rparr>"
          using c InFlight Cons Inr by (simp add: onReply_def removeAt_def)
        from assms(2) have "\<forall>e\<in>set events. t \<le> timestamp e"
          unfolding r using Inr by (simp add: eventsNotBefore_append) (simp add: eventsNotBefore_def)
        then have le: "startTime (shared s) \<le> startTime (fetchLogs_onData (shared s) events)"
        proof (cases "events = []")
          case True
          then show ?thesis by (simp add: startTime_onData)
        next
          case False
          then have "last events \<in> set events" by simp
          with \<open>\<forall>e\<in>set events. t \<le> timestamp e\<close> have "t \<le> timestamp (last events)" by blast
          with False t show ?thesis by (simp add: startTime_onData)
        qed
        with assms(1) show ?thesis
          unfolding r
          using sorted_snoc_le [of "map snd (issued s)" "startTime (shared s)"
                  "startTime (fetchLogs_onData (shared s) events)"]
          by (simp add: inStep_def)
      next
        case (Inl error)
        with c InFlight Cons assms(1) t show ?thesis
          by (cases "isExpired error") (simp_all add: onReply_def removeAt_def inStep_def Let_def)
      qed
    qed
  qed
qed

lemma onOperator_inStep:
  assumes "inStep s"
  shows "inStep (onOperator i s) \<and> startTime (shared (onOperator i s)) = startTime (shared s)"
proof (cases "i < length (calls s)")
  case False
  with assms show ?thesis by (simp add: onOperator_def)
next
  case True
  with assms obtain c where c: "calls s = [c]" "i = 0"
    by (cases "calls s") (auto simp: inStep_def)
  show ?thesis
  proof (cases c)
    case (InFlight t)
    with c assms show ?thesis by (simp add: onOperator_def)
  next
    case (AwaitingOperator t)
    with c assms have t: "t = startTime (shared s)" by (simp add: inStep_def)
    show ?thesis
    proof (cases "entered (env s)")
      case Nil
      with c AwaitingOperator assms show ?thesis by (simp add: onOperator_def)
    next
      case (Cons a rest)
      with c AwaitingOperator assms t show ?thesis
        using sorted_snoc_le [of "map snd (issued s)" "startTime (shared s)" "startTime (shared s)"]
        by (cases "writeError (env s)")
           (simp_all add: onOperator_def storeCredentials_def removeAt_def inStep_def
              retriesResend_snoc)
    qed
  qed
qed

lemma timerStep_inStep:
  assumes "inStep s" and "x = Tick \<longrightarrow> calls s = []"
    and "eventsNotBefore (sent (env (timerStep x s)))"
  shows "inStep (timerStep x s) \<and> startTime (shared s) \<le> startTime (shared (timerStep x s))"
proof (cases "rejected s")
  case (Some e)
  with assms show ?thesis by simp
next
  case None
  show ?thesis
  proof (cases x)
    case Tick
    with None assms onTick_inStep [of s] show ?thesis by simp
  next
    case (Reply i)
    with None assms onReply_inStep [of s i] show ?thesis by simp
  next
    case (Operator i)
    with None assms onOperator_inStep [of s i] show ?thesis by simp
  qed
qed

lemma timerRun_inStep:
  "inStep s \<Longrightarrow> sequential schedule s \<Longrightarrow> eventsNotBefore (sent (env (timerRun schedule s))) \<Longrightarrow>
     inStep (timerRun schedule s) \<and> startTime (shared s) \<le> startTime (shared (timerRun schedule s))"
proof (induction schedule arbitrary: s)
  case Nil
  then show ?case by (simp add: timerRun_def)
next
  case (Cons x xs)
  have run: "timerRun (x # xs) s = timerRun xs (timerStep x s)"
    by (simp add: timerRun_def)
  from timerRun_sent [of xs "timerStep x s"] Cons.prems(3)
  have nb: "eventsNotBefore (sent (env (timerStep x s)))"
    unfolding run by (auto simp: eventsNotBefore_append)
  from Cons.prems(2) have seq: "x = Tick \<longrightarrow> calls s = []" "sequential xs (timerStep x s)"
    by simp_all
  from timerStep_inStep [OF Cons.prems(1) seq(1) nb]
  have s1: "inStep (timerStep x s)" "startTime (shared s) \<le> startTime (shared (timerStep x s))"
    by simp_all
  from Cons.IH [OF s1(1) seq(2)] Cons.prems(3) s1(2) show ?case
    unfolding run by auto
qed

lemma handleExpiredToken_Return:
  assumes "handleExpiredToken reg w = (Return newCredentials, w2)"
  shows "\<exists>a rest. entered w = a # rest \<and> writeError w = None \<and>
           newCredentials =
             \<lparr>accessKeyId = answerAccessKeyId a, secretAccessKey = answerSecretAccessKey a,
              sessionToken =
                (if answerSessionToken a = [] then None else Some (answerSessionToken a)),
              region = answerRegion a\<rparr> \<and>
           w2 = w\<lparr>shown := shown w @ [CredentialsPrompt], entered := rest,
                  configFile := Some newCredentials\<rparr>"
  using assms
  by (cases "entered w"; cases "writeError w")
     (auto simp: handleExpiredToken_def getCredentialsFromUser_def storeCredentials_def)

lemma timerRun_Cons: "timerRun (x # xs) s = timerRun xs (timerStep x s)"
  by (simp add: timerRun_def)

lemma timerRun_append: "timerRun (xs @ ys) s = timerRun ys (timerRun xs s)"
  by (simp add: timerRun_def)

lemma sequential_append:
  "sequential (xs @ ys) s \<longleftrightarrow> sequential xs s \<and> sequential ys (timerRun xs s)"
  by (induction xs arbitrary: s) (simp_all add: timerRun_def)

lemma sequential_no_Tick: "Tick \<notin> set xs \<Longrightarrow> sequential xs s"
  by (induction xs arbitrary: s) auto

lemma fetchLogs_is_run:
  "fetchLogs reg st w = (Return u, st', w') \<Longrightarrow> rejected s = None \<Longrightarrow>
     calls s = [InFlight (startTime st)] \<Longrightarrow> shared s = st \<Longrightarrow> env s = w \<Longrightarrow>
     \<exists>schedule. Tick \<notin> set schedule \<and> shared (timerRun schedule s) = st' \<and>
        env (timerRun schedule s) = w' \<and> calls (timerRun schedule s) = [] \<and>
        rejected (timerRun schedule s) = None"
proof (induction reg st w arbitrary: s rule: fetchLogs.induct)
  case (1 reg st w)
  show ?case
  proof (cases "logEvents w")
    case Nil
    with "1.prems"(1) show ?thesis by (subst (asm) fetchLogs.simps) simp
  next
    case (Cons reply rest)
    define w1 where "w1 = w\<lparr>logEvents := rest, sent := sent w @ [(startTime st, reply)]\<rparr>"
    show ?thesis
    proof (cases reply)
      case (Inr events)
      with Cons "1.prems"(1) have r: "st' = fetchLogs_onData st events" "w' = w1"
        by (simp_all add: fetchLogs_events w1_def)
      have "timerRun [Reply 0] s =
              s\<lparr>shared := fetchLogs_onData st events, env := w1, calls := []\<rparr>"
        using "1.prems"(2-5) Cons Inr
        by (simp add: timerRun_def onReply_def removeAt_def w1_def)
      with r "1.prems"(2) show ?thesis
        by (intro exI [of _ "[Reply 0]"]) simp
    next
      case (Inl error)
      show ?thesis
      proof (cases "isExpired error")
        case False
        with Inl Cons "1.prems"(1) show ?thesis by (subst (asm) fetchLogs.simps) simp
      next
        case True
        obtain r w2 where h: "handleExpiredToken reg w1 = (r, w2)"
          by (cases "handleExpiredToken reg w1")
        show ?thesis
        proof (cases r)
          case (Return newc)
          define st1 where "st1 = st\<lparr>liveCredentials := (liveCredentials st)
                                  \<lparr>accessKeyId := accessKeyId newc,
                                   secretAccessKey := secretAccessKey newc,
                                   sessionToken := sessionToken newc\<rparr>\<rparr>"
          have rec: "fetchLogs reg st1 w2 = (Return u, st', w')"
            using "1.prems"(1) Cons Inl True h Return
            by (subst (asm) fetchLogs.simps) (simp add: w1_def st1_def)
          from handleExpiredToken_Return [OF h [unfolded Return]] obtain a more where
            a: "entered w1 = a # more" "writeError w1 = None"
               "newc = \<lparr>accessKeyId = answerAccessKeyId a, secretAccessKey = answerSecretAccessKey a,
                  sessionToken =
                    (if answerSessionToken a = [] then None else Some (answerSessionToken a)),
                  region = answerRegion a\<rparr>"
               "w2 = w1\<lparr>shown := shown w1 @ [CredentialsPrompt], entered := more,
                        configFile := Some newc\<rparr>"
            by blast
          define s2 where "s2 = timerRun [Reply 0, Operator 0] s"
          have s2: "rejected s2 = None" "calls s2 = [InFlight (startTime st1)]"
               "shared s2 = st1" "env s2 = w2"
            using "1.prems"(2-5) Cons Inl True a
            by (simp_all add: s2_def timerRun_def onReply_def onOperator_def storeCredentials_def
                  w1_def st1_def)
          from "1.IH" [OF Cons refl Inl True h [unfolded w1_def, symmetric] Return
                  rec [unfolded st1_def], folded st1_def, OF s2]
          obtain schedule where sch: "Tick \<notin> set schedule"
            "shared (timerRun schedule s2) = st'" "env (timerRun schedule s2) = w'"
            "calls (timerRun schedule s2) = []" "rejected (timerRun schedule s2) = None"
            by blast
          have "timerRun ([Reply 0, Operator 0] @ schedule) s = timerRun schedule s2"
            unfolding timerRun_append s2_def ..
          with sch show ?thesis
            by (intro exI [of _ "[Reply 0, Operator 0] @ schedule"]) simp
        next
          case (Throw e)
          with Inl Cons "1.prems"(1) True h show ?thesis
            by (subst (asm) fetchLogs.simps) (simp add: w1_def)
        next
          case Pending
          with Inl Cons "1.prems"(1) True h show ?thesis
            by (subst (asm) fetchLogs.simps) (simp add: w1_def)
        qed
      qed
    qed
  qed
qed

lemma pollTicks_is_run:
  "pollTicks n reg (shared s) (env s) = (Return u, st', w') \<Longrightarrow> rejected s = None \<Longrightarrow>
     calls s = [] \<Longrightarrow>
     \<exists>schedule. sequential schedule s \<and> shared (timerRun schedule s) = st' \<and>
        env (timerRun schedule s) = w' \<and> calls (timerRun schedule s) = [] \<and>
        rejected (timerRun schedule s) = None"
proof (induction n arbitrary: s)
  case 0
  then show ?case by (intro exI [of _ "[]"]) (simp add: timerRun_def)
next
  case (Suc n)
  obtain r st1 w1 where f: "fetchLogs reg (shared s) (env s) = (r, st1, w1)"
    by (cases "fetchLogs reg (shared s) (env s)") auto
  with Suc.prems(1) obtain u1 where r: "r = Return u1"
    by (cases r) auto
  with Suc.prems(1) f have rest: "pollTicks n reg st1 w1 = (Return u, st', w')" by simp
  define s0 where "s0 = timerStep Tick s"
  have s0: "rejected s0 = None" "calls s0 = [InFlight (startTime (shared s))]"
       "shared s0 = shared s" "env s0 = env s"
    using Suc.prems(2,3) by (simp_all add: s0_def onTick_def)
  from fetchLogs_is_run [OF f [unfolded r] s0] obtain sch1 where
    sch1: "Tick \<notin> set sch1" "shared (timerRun sch1 s0) = st1" "env (timerRun sch1 s0) = w1"
      "calls (timerRun sch1 s0) = []" "rejected (timerRun sch1 s0) = None"
    by blast
  define sA where "sA = timerRun sch1 s0"
  from rest sch1 have "pollTicks n reg (shared sA) (env sA) = (Return u, st', w')"
    by (simp add: sA_def)
  from Suc.IH [OF this] sch1 obtain sch2 where
    sch2: "sequential sch2 sA" "shared (timerRun sch2 sA) = st'" "env (timerRun sch2 sA) = w'"
      "calls (timerRun sch2 sA) = []" "rejected (timerRun sch2 sA) = None"
    by (auto simp: sA_def)
  have run: "timerRun (Tick # sch1 @ sch2) s = timerRun sch2 sA"
    by (simp add: timerRun_Cons timerRun_append sA_def s0_def)
  have "sequential (Tick # sch1 @ sch2) s"
    using Suc.prems(3) sch1(1) sch2(1)
    by (simp add: sequential_append sequential_no_Tick sA_def s0_def del: timerStep.simps)
  with run sch2 show ?case
    by (intro exI [of _ "Tick # sch1 @ sch2"]) simp
qed

section \<open>Claims about the tail loop\<close>

text \<open>
  C1, as stated: a fetch that returns events with timestamps 100, 105, 103, in this
  order, moves the watermark to the maximum plus one.  It does not: the watermark becomes
  104, the last event's timestamp plus one.
\<close>

theorem watermark_counterexample:
  "startTime (fst (snd (fetchLogs ''eu-west-1'' tailStart (tailWorld [Inr [ev 100, ev 105, ev 103]]))))
     \<noteq> Max (set (map timestamp [ev 100, ev 105, ev 103])) + 1"
  by (simp add: fetchLogs_events tailWorld_def emptyWorld_def startTime_onData ev_def)

text \<open>
  C1, amended: after every fetch that returns events, the watermark is the timestamp of the
  last event returned plus one; this is the maximum plus one when the events come in
  non-decreasing order of timestamp.
\<close>

theorem watermark_last:
  assumes "fetchLogs reg st w = (Return u, st', w')"
    and "snd (last (sent w')) = Inr events" and "events \<noteq> []"
  shows "startTime st' = timestamp (last events) + 1 \<and>
         (sorted (map timestamp events) \<longrightarrow> startTime st' = Max (set (map timestamp events)) + 1)"
proof -
  from fetchLogs_returns [OF assms(1)] assms(2) obtain st0 where
    "st' = fetchLogs_onData st0 events" by auto
  with assms(3) have a: "startTime st' = timestamp (last events) + 1"
    by (simp add: startTime_onData)
  have "Max (set (map timestamp events)) = last (map timestamp events)"
    if "sorted (map timestamp events)"
    using that assms(3) by (intro sorted_Max_last) simp_all
  with a assms(3) show ?thesis
    by (simp add: last_map)
qed

theorem watermark_last_witness:
  "startTime (fst (snd (fetchLogs ''eu-west-1'' tailStart
      (tailWorld [Inr [ev 100, ev 103, ev 105]])))) = 106 \<and>
   Max (set (map timestamp [ev 100, ev 103, ev 105])) + 1 = 106"
proof -
  let ?events = "[ev 100, ev 103, ev 105]"
  let ?w' = "(tailWorld [Inr ?events])\<lparr>logEvents := [],
               sent := sent (tailWorld [Inr ?events]) @ [(startTime tailStart, Inr ?events)]\<rparr>"
  have run: "fetchLogs ''eu-west-1'' tailStart (tailWorld [Inr ?events]) =
      (Return (), fetchLogs_onData tailStart ?events, ?w')"
    by (rule fetchLogs_events) (simp add: tailWorld_def)
  have reply: "snd (last (sent ?w')) = Inr ?events" by simp
  have res: "fst (snd (fetchLogs ''eu-west-1'' tailStart (tailWorld [Inr ?events]))) =
      fetchLogs_onData tailStart ?events"
    by (simp add: run)
  have "sorted (map timestamp ?events)" by (simp add: ev_def)
  with watermark_last [OF run reply] show ?thesis
    unfolding res by (simp add: ev_def)
qed

text \<open>
  C2, as stated: of two consecutive fetches that return no events, only one appends the
  notice.  Started from the initial state, both do.
\<close>

theorem notice_counterexample:
  "logBuffer (fst (snd (pollTicks (Suc (Suc 0)) ''eu-west-1'' tailStart (tailWorld [Inr [], Inr []]))))
     = [Notice ''No log events found.'', Notice ''No log events found.'']"
  by (simp add: fetchLogs_events tailWorld_def logBuffer_onData flag_onData pushed_def
        tailStart_def streamLogs_init_def MAX_LOG_LINES_def emptyWorld_def)

text \<open>
  C2, amended: a fetch that returns no events appends the notice exactly when the flag
  \<open>lastFetchHadEvents\<close> is false, that is, when the preceding fetch returned no events or
  there was none, and clears the flag; so of two consecutive such fetches the second always
  appends the notice, and the first does too unless it follows a fetch that returned events.
  The buffer is cut to its last \<open>MAX_LOG_LINES\<close> lines each time.
\<close>

theorem notice_after_empty:
  assumes "fetchLogs reg st w = (Return u, st1, w1)" and "snd (last (sent w1)) = Inr []"
  shows "(let buffer = logBuffer st @
                (if lastFetchHadEvents st then [] else [Notice ''No log events found.''])
          in logBuffer st1 = drop (length buffer - MAX_LOG_LINES) buffer) \<and>
         \<not> lastFetchHadEvents st1 \<and>
         (\<forall>u' st2 w2. fetchLogs reg st1 w1 = (Return u', st2, w2) \<and> snd (last (sent w2)) = Inr [] \<longrightarrow>
            (let buffer = logBuffer st @
                   (if lastFetchHadEvents st
                    then [Notice ''No log events found.'']
                    else [Notice ''No log events found.'', Notice ''No log events found.''])
             in logBuffer st2 = drop (length buffer - MAX_LOG_LINES) buffer))"
proof -
  let ?N = "Notice ''No log events found.''"
  let ?first = "if lastFetchHadEvents st then [] else [?N]"
  from fetchLogs_returns [OF assms(1)] assms(2) obtain st0 where
    st0: "sameTail st st0" "st1 = fetchLogs_onData st0 []" by auto
  have b1: "logBuffer st1 =
      drop (length (logBuffer st @ ?first) - MAX_LOG_LINES) (logBuffer st @ ?first)"
    using st0 by (simp add: logBuffer_onData pushed_def sameTail_def)
  have f1: "\<not> lastFetchHadEvents st1"
    using st0 by (simp add: flag_onData)
  have b2: "logBuffer st2 =
      drop (length (logBuffer st @ ?first @ [?N]) - MAX_LOG_LINES) (logBuffer st @ ?first @ [?N])"
    if "fetchLogs reg st1 w1 = (Return u', st2, w2)" "snd (last (sent w2)) = Inr []"
    for u' st2 w2
  proof -
    from fetchLogs_returns [OF that(1)] that(2) obtain st3 where
      st3: "sameTail st1 st3" "st2 = fetchLogs_onData st3 []" by auto
    have "logBuffer st2 =
        drop (length (logBuffer st1 @ [?N]) - MAX_LOG_LINES) (logBuffer st1 @ [?N])"
      using st3 f1 by (simp add: logBuffer_onData pushed_def sameTail_def)
    also have "\<dots> = drop (length ((logBuffer st @ ?first) @ [?N]) - MAX_LOG_LINES)
                        ((logBuffer st @ ?first) @ [?N])"
      unfolding b1 by (rule keep_last_twice)
    finally show ?thesis by simp
  qed
  have c2: "logBuffer st @ ?first @ [?N] =
      logBuffer st @ (if lastFetchHadEvents st then [?N] else [?N, ?N])"
    by simp
  show ?thesis
    unfolding Let_def
  proof (intro conjI allI impI)
    show "logBuffer st1 =
        drop (length (logBuffer st @ ?first) - MAX_LOG_LINES) (logBuffer st @ ?first)"
      by (rule b1)
    show "\<not> lastFetchHadEvents st1" by (rule f1)
  next
    fix u' st2 w2
    assume "fetchLogs reg st1 w1 = (Return u', st2, w2) \<and> snd (last (sent w2)) = Inr []"
    then show "logBuffer st2 =
        drop (length (logBuffer st @ (if lastFetchHadEvents st then [?N] else [?N, ?N]))
                - MAX_LOG_LINES)
             (logBuffer st @ (if lastFetchHadEvents st then [?N] else [?N, ?N]))"
      using b2 [of u' st2 w2] unfolding c2 by blast
  qed
qed

theorem notice_after_empty_witness:
  "logBuffer (fst (snd (pollTicks (Suc (Suc 0)) ''eu-west-1''
      (tailStart\<lparr>logBuffer := [EventLine 1 ''m''], lastFetchHadEvents := True\<rparr>)
      (tailWorld [Inr [], Inr []])))) = [EventLine 1 ''m'', Notice ''No log events found.'']"
proof -
  let ?st = "tailStart\<lparr>logBuffer := [EventLine 1 ''m''], lastFetchHadEvents := True\<rparr>"
  let ?w = "tailWorld [Inr [], Inr []]"
  let ?st1 = "fetchLogs_onData ?st []"
  let ?w1 = "?w\<lparr>logEvents := [Inr []], sent := sent ?w @ [(startTime ?st, Inr [])]\<rparr>"
  let ?st2 = "fetchLogs_onData ?st1 []"
  let ?w2 = "?w1\<lparr>logEvents := [], sent := sent ?w1 @ [(startTime ?st1, Inr [])]\<rparr>"
  have run1: "fetchLogs ''eu-west-1'' ?st ?w = (Return (), ?st1, ?w1)"
    by (rule fetchLogs_events) (simp add: tailWorld_def)
  have reply1: "snd (last (sent ?w1)) = Inr []" by simp
  have run2: "fetchLogs ''eu-west-1'' ?st1 ?w1 = (Return (), ?st2, ?w2)"
    by (rule fetchLogs_events) (simp add: tailWorld_def)
  have reply2: "snd (last (sent ?w2)) = Inr []" by simp
  from notice_after_empty [OF run1 reply1] run2 reply2
  have "logBuffer ?st2 = drop (length ([EventLine 1 ''m''] @ [Notice ''No log events found.''])
            - MAX_LOG_LINES) ([EventLine 1 ''m''] @ [Notice ''No log events found.''])"
    unfolding Let_def by (simp add: tailStart_def streamLogs_init_def)
  moreover have "pollTicks (Suc (Suc 0)) ''eu-west-1'' ?st ?w = (Return (), ?st2, ?w2)"
    by (simp only: pollTicks.simps run1 run2 prod.case outcome.case)
  ultimately show ?thesis
    by (simp add: MAX_LOG_LINES_def)
qed

text \<open>
  C7: after every fetch that completes, the buffer holds at most 1000 lines, and it is the
  old buffer followed by the lines of this fetch, with the oldest lines dropped from the
  front when that is more than 1000.
\<close>

theorem buffer_capped_fifo:
  assumes "fetchLogs reg st w = (Return u, st', w')"
  shows "length (logBuffer st') \<le> 1000 \<and>
         (\<exists>events. snd (last (sent w')) = Inr events \<and>
            (let buffer = logBuffer st @ pushed (lastFetchHadEvents st) events
             in logBuffer st' = drop (length buffer - 1000) buffer))"
proof -
  from fetchLogs_returns [OF assms] obtain st0 events where
    e: "last (sent w') = (startTime st, Inr events)" "sameTail st st0"
       "st' = fetchLogs_onData st0 events" by auto
  then have "logBuffer st' =
      drop (length (logBuffer st @ pushed (lastFetchHadEvents st) events) - 1000)
           (logBuffer st @ pushed (lastFetchHadEvents st) events)"
    by (simp add: logBuffer_onData sameTail_def MAX_LOG_LINES_def)
  moreover from this have "length (logBuffer st') \<le> 1000" by simp
  moreover from e(1) have "snd (last (sent w')) = Inr events" by simp
  ultimately show ?thesis
    unfolding Let_def by blast
qed

theorem buffer_capped_fifo_witness:
  "length (logBuffer (fst (snd (fetchLogs ''eu-west-1''
      (tailStart\<lparr>logBuffer := replicate 999 (Notice ''old'') @ [EventLine 1 ''m'']\<rparr>)
      (tailWorld [Inr [ev 2, ev 3]]))))) \<le> 1000 \<and>
   logBuffer (fst (snd (fetchLogs ''eu-west-1''
      (tailStart\<lparr>logBuffer := replicate 999 (Notice ''old'') @ [EventLine 1 ''m'']\<rparr>)
      (tailWorld [Inr [ev 2, ev 3]])))) =
     replicate 997 (Notice ''old'') @ [EventLine 1 ''m'', EventLine 2 ''m'', EventLine 3 ''m'']"
proof -
  let ?st = "tailStart\<lparr>logBuffer := replicate 999 (Notice ''old'') @ [EventLine 1 ''m'']\<rparr>"
  let ?w = "tailWorld [Inr [ev 2, ev 3]]"
  let ?w' = "?w\<lparr>logEvents := [], sent := sent ?w @ [(startTime ?st, Inr [ev 2, ev 3])]\<rparr>"
  have run: "fetchLogs ''eu-west-1'' ?st ?w = (Return (), fetchLogs_onData ?st [ev 2, ev 3], ?w')"
    by (rule fetchLogs_events) (simp add: tailWorld_def)
  have res: "fst (snd (fetchLogs ''eu-west-1'' ?st ?w)) = fetchLogs_onData ?st [ev 2, ev 3]"
    by (simp add: run)
  from buffer_capped_fifo [OF run] show ?thesis
    unfolding res by (simp add: Let_def pushed_def tailStart_def streamLogs_init_def ev_def)
qed

text \<open>
  C8, as stated: whenever every event of a reply is at or after the \<open>startTime\<close> of its
  query, the \<open>startTime\<close>s sent never decrease, and a retry after a credential refresh
  carries the \<open>startTime\<close> of the query that failed.  The timer lets calls overlap, and then
  neither holds: a late reply to an old query moves \<open>startTime\<close> back from 151 to 101, and a
  retry carries the \<open>startTime\<close> that another call's reply has set meanwhile.
\<close>

theorem watermark_overlap_counterexample:
  "eventsNotBefore (sent (env overlapRun)) \<and>
   map snd (issued overlapRun) = [0, 0, 151, 101] \<and>
   \<not> sorted (map snd (issued overlapRun)) \<and>
   eventsNotBefore (sent (env overlapRetryRun)) \<and>
   issued overlapRetryRun = [(None, 0), (None, 0), (Some 0, 151)] \<and>
   \<not> retriesResend (issued overlapRetryRun)"
  by code_simp

text \<open>
  C8, amended: in every run where no call of \<open>fetchLogs\<close> overlaps another, if every event
  of every reply is at or after the \<open>startTime\<close> of its query, the \<open>startTime\<close>s sent,
  followed by the current one, never decrease, and every retry after a credential refresh
  carries the \<open>startTime\<close> of the query that failed; and in every run, a reply without
  events leaves \<open>startTime\<close> as it was.
\<close>

theorem watermark_never_rewinds:
  "(calls s = [] \<and> issued s = [] \<and> sequential schedule s \<and>
    eventsNotBefore (sent (env (timerRun schedule s))) \<longrightarrow>
      sorted (map snd (issued (timerRun schedule s)) @ [startTime (shared (timerRun schedule s))]) \<and>
      startTime (shared s) \<le> startTime (shared (timerRun schedule s)) \<and>
      retriesResend (issued (timerRun schedule s))) \<and>
   (rejected t = None \<and> i < length (calls t) \<and> calls t ! i = InFlight q \<and>
    logEvents (env t) = Inr [] # rest \<longrightarrow>
      startTime (shared (timerStep (Reply i) t)) = startTime (shared t))"
proof (intro conjI impI)
  assume a: "calls s = [] \<and> issued s = [] \<and> sequential schedule s \<and>
    eventsNotBefore (sent (env (timerRun schedule s)))"
  then have "inStep s" by (simp add: inStep_def retriesResend_def)
  with a timerRun_inStep [of s schedule]
  have "inStep (timerRun schedule s)"
    "startTime (shared s) \<le> startTime (shared (timerRun schedule s))" by blast+
  then show "sorted (map snd (issued (timerRun schedule s)) @ [startTime (shared (timerRun schedule s))])"
    "startTime (shared s) \<le> startTime (shared (timerRun schedule s))"
    "retriesResend (issued (timerRun schedule s))"
    by (simp_all add: inStep_def)
next
  assume "rejected t = None \<and> i < length (calls t) \<and> calls t ! i = InFlight q \<and>
    logEvents (env t) = Inr [] # rest"
  then show "startTime (shared (timerStep (Reply i) t)) = startTime (shared t)"
    by (simp add: onReply_def startTime_onData)
qed

theorem watermark_never_rewinds_witness:
  "issued (timerRun sequentialSchedule (streamLogs_start exampleCredentials retryWorld)) =
     [(None, 0), (Some 0, 0), (None, 6)] \<and>
   sorted (map snd (issued (timerRun sequentialSchedule
                              (streamLogs_start exampleCredentials retryWorld)))
           @ [startTime (shared (timerRun sequentialSchedule
                                   (streamLogs_start exampleCredentials retryWorld)))]) \<and>
   startTime (shared (streamLogs_start exampleCredentials retryWorld)) \<le>
     startTime (shared (timerRun sequentialSchedule
                          (streamLogs_start exampleCredentials retryWorld))) \<and>
   retriesResend (issued (timerRun sequentialSchedule
                            (streamLogs_start exampleCredentials retryWorld))) \<and>
   startTime (shared (timerStep (Reply 0)
       (timerStep Tick (streamLogs_start exampleCredentials (tailWorld [Inr []]))))) =
     startTime (shared (timerStep Tick (streamLogs_start exampleCredentials (tailWorld [Inr []]))))"
proof -
  let ?s = "streamLogs_start exampleCredentials retryWorld"
  let ?t = "timerStep Tick (streamLogs_start exampleCredentials (tailWorld [Inr []]))"
  have h1: "calls ?s = [] \<and> issued ?s = [] \<and> sequential sequentialSchedule ?s \<and>
            eventsNotBefore (sent (env (timerRun sequentialSchedule ?s)))"
    by code_simp
  have h2: "rejected ?t = None \<and> 0 < length (calls ?t) \<and>
            calls ?t ! 0 = InFlight (startTime (shared ?t)) \<and> logEvents (env ?t) = Inr [] # []"
    by code_simp
  have ex: "issued (timerRun sequentialSchedule ?s) = [(None, 0), (Some 0, 0), (None, 6)]"
    by code_simp
  from watermark_never_rewinds [where s = ?s and schedule = sequentialSchedule and t = ?t
      and i = 0 and q = "startTime (shared ?t)" and rest = "[]"] h1 h2 ex
  show ?thesis by blast
qed

section \<open>Claims about the namespace navigator and the stream selector\<close>

text \<open>
  C3, as stated: for the entries \<open>/a/b/c\<close>, \<open>/a/b/d\<close> and \<open>/a/e\<close>, main group \<open>a\<close> and the
  empty prefix, the next segments are \<open>b/\<close> and \<open>e\<close>.  They are not: with the empty prefix
  the remaining path of every entry starts with a slash, and the only segment is \<open>/\<close>.
\<close>

theorem subGroups_counterexample:
  "set (subGroups (matchingGroups abcGroups ''a'' '''') ''a'' '''') \<noteq> {''b/'', ''e''}"
  by (simp add: abcGroups_def subGroups_def matchingGroups_def startsWith_def sliceFrom_def
        slice_def clampIndex_def arrayFromSet_def Let_def)

text \<open>
  C3, amended: for these entries and main group \<open>a\<close>, whatever their creation times, the
  empty prefix yields the single segment \<open>/\<close>, and the prefix \<open>/\<close>, which choosing that
  segment leads to, yields exactly the segments \<open>b/\<close> and \<open>e\<close>.
\<close>

theorem subGroups_example:
  "subGroups (matchingGroups
      [\<lparr>logGroupName = ''/a/b/c'', creationTime = t1\<rparr>,
       \<lparr>logGroupName = ''/a/b/d'', creationTime = t2\<rparr>,
       \<lparr>logGroupName = ''/a/e'', creationTime = t3\<rparr>] ''a'' '''') ''a'' '''' = [''/''] \<and>
   set (subGroups (matchingGroups
      [\<lparr>logGroupName = ''/a/b/c'', creationTime = t1\<rparr>,
       \<lparr>logGroupName = ''/a/b/d'', creationTime = t2\<rparr>,
       \<lparr>logGroupName = ''/a/e'', creationTime = t3\<rparr>] ''a'' ''/'') ''a'' ''/'') = {''b/'', ''e''}"
  by (simp add: subGroups_def matchingGroups_def startsWith_def sliceFrom_def
        slice_def clampIndex_def arrayFromSet_def Let_def)

text \<open>
  C4, what the code does when the operator chooses \<open>Back\<close> in the stream selector:
  \<open>getLogStream\<close> returns the result of \<open>getLogGroup\<close>, called with the path cut after its
  last slash as main group, and never lists streams again.  With the log groups \<open>/a/b\<close> and
  \<open>//a/c\<close> it returns the log group name \<open>//a/c\<close> as if it were a stream; with the log groups
  \<open>/a/b/c\<close> and \<open>/a/b/d\<close> no entry matches \<open>//a/b/\<close> and the last menu shown is empty.
\<close>

theorem getLogStream_back_example:
  "fst (getLogStream ''eu-west-1'' ''/a/b'' exampleCredentials backWorld) = Return ''//a/c'' \<and>
   shown (snd (getLogStream ''eu-west-1'' ''/a/b'' exampleCredentials backWorld)) =
     [ListPrompt ''Select Log Stream:''
        [(LastEventAt ''s1'' (Some 5), ''s1''), (Text ''Back'', ''back'')],
      ListPrompt ''Filter log groups by date:''
        [(Text ''All'', ''all''), (Text ''This Year'', ''year''),
         (Text ''This Month'', ''month''), (Text ''Today'', ''day'')],
      ListPrompt ''Select Log Group:'' [(CreatedAt ''//a/c'' 2, ''//a/c'')]] \<and>
   fst (getLogStream ''eu-west-1'' ''/a/b/c'' exampleCredentials ordinaryWorld) = Pending \<and>
   shown (snd (getLogStream ''eu-west-1'' ''/a/b/c'' exampleCredentials ordinaryWorld)) =
     [ListPrompt ''Select Log Stream:''
        [(LastEventAt ''s1'' (Some 5), ''s1''), (Text ''Back'', ''back'')],
      ListPrompt ''Filter log groups by date:''
        [(Text ''All'', ''all''), (Text ''This Year'', ''year''),
         (Text ''This Month'', ''month''), (Text ''Today'', ''day'')],
      ListPrompt ''Select Log Group:'' []]"
  by code_simp

lemma getLogGroup_try_empty:
  assumes "logGroupPages w = (pages, None) # rest" and "concat pages = []"
  shows "getLogGroup_try mainLogGroup prefix w =
           (Failed (AWSError ''No log groups found.''), w\<lparr>logGroupPages := rest\<rparr>)"
  using assms by (simp add: getLogGroup_try_def fetchAllLogGroups_def)

text \<open>
  C5: for every region, credentials, main group and prefix, if the listing of log groups
  comes back empty, \<open>getLogGroup\<close> throws an \<open>AWSError\<close> whose message reports that no log
  groups were found, and it has displayed no prompt.
\<close>

theorem getLogGroup_empty:
  assumes "logGroupPages w = (pages, None) # rest" and "concat pages = []"
  shows "getLogGroup reg creds mainLogGroup prefix w =
           (Throw (Error ''AWSError''
                     ''An error occurred while fetching log groups: No log groups found.''),
            w\<lparr>logGroupPages := rest\<rparr>) \<and>
         shown (snd (getLogGroup reg creds mainLogGroup prefix w)) = shown w"
proof -
  have "getLogGroup reg creds mainLogGroup prefix w =
           (Throw (Error ''AWSError''
                     ''An error occurred while fetching log groups: No log groups found.''),
            w\<lparr>logGroupPages := rest\<rparr>)"
    by (subst getLogGroup.simps)
       (simp add: getLogGroup_try_empty [OF assms] isExpired_def AWSError_def)
  then show ?thesis by simp
qed

theorem getLogGroup_empty_witness:
  "getLogGroup ''eu-west-1'' exampleCredentials ''a'' ''''
      (emptyWorld\<lparr>logGroupPages := [([[], []], None)]\<rparr>) =
     (Throw (Error ''AWSError''
               ''An error occurred while fetching log groups: No log groups found.''),
      emptyWorld\<lparr>logGroupPages := []\<rparr>) \<and>
   shown (snd (getLogGroup ''eu-west-1'' exampleCredentials ''a'' ''''
      (emptyWorld\<lparr>logGroupPages := [([[], []], None)]\<rparr>))) = []"
proof -
  have "logGroupPages (emptyWorld\<lparr>logGroupPages := [([[], []], None)]\<rparr>) = ([[], []], None) # []"
    by simp
  moreover have "concat [[], []] = ([] :: log_group list)" by simp
  ultimately show ?thesis
    using getLogGroup_empty [of "emptyWorld\<lparr>logGroupPages := [([[], []], None)]\<rparr>"
        "[[], []]" "[]" "''eu-west-1''" exampleCredentials "''a''" "''''"]
    by (simp add: emptyWorld_def)
qed

section \<open>Claims about credential validation\<close>

lemma trim_empty_iff: "trim s = [] \<longleftrightarrow> (\<forall>c\<in>set s. isWhiteSpace c)"
proof -
  have "dropWhile isWhiteSpace (rev t) = [] \<longleftrightarrow> t = []"
    if "t = dropWhile isWhiteSpace s" for t
  proof
    assume e: "dropWhile isWhiteSpace (rev t) = []"
    show "t = []"
    proof (rule ccontr)
      assume "t \<noteq> []"
      with that have "\<not> isWhiteSpace (hd t)" "hd t \<in> set t"
        using hd_dropWhile [of isWhiteSpace s] by auto
      with e show False by (auto simp: dropWhile_eq_Nil_conv)
    qed
  qed simp
  then show ?thesis
    by (simp add: trim_def dropWhile_eq_Nil_conv)
qed

text \<open>
  C6: \<open>validateCredentials\<close> yields a truthy value exactly for an object whose
  \<open>accessKeyId\<close> and \<open>secretAccessKey\<close> are both strings that are not empty after trimming,
  that is, strings with a character that is not white space; it never throws.
\<close>

theorem validateCredentials_accepts:
  "(accepts c \<longleftrightarrow>
      (\<exists>props a s. c = Object props \<and>
         map_of props ''accessKeyId'' = Some (String a) \<and>
         map_of props ''secretAccessKey'' = Some (String s) \<and>
         trim a \<noteq> [] \<and> trim s \<noteq> [])) \<and>
   (\<exists>v. validateCredentials c = Inr v) \<and>
   (trim x \<noteq> [] \<longleftrightarrow> (\<exists>ch\<in>set x. \<not> isWhiteSpace ch))"
proof (intro conjI)
  show "trim x \<noteq> [] \<longleftrightarrow> (\<exists>ch\<in>set x. \<not> isWhiteSpace ch)"
    by (simp add: trim_empty_iff)
next
  show "\<exists>v. validateCredentials c = Inr v"
  proof (cases c)
    case (Object props)
    show ?thesis
    proof (cases "map_of props ''accessKeyId''")
      case None
      with Object show ?thesis by (simp add: validateCredentials_def bindE_def)
    next
      case (Some a)
      show ?thesis
      proof (cases "map_of props ''secretAccessKey''")
        case None
        with Some Object show ?thesis by (simp add: validateCredentials_def bindE_def)
      next
        case s: (Some s)
        with Some Object show ?thesis
          by (cases a; cases s) (simp_all add: validateCredentials_def bindE_def)
      qed
    qed
  qed (simp_all add: validateCredentials_def bindE_def)
next
  show "accepts c \<longleftrightarrow>
      (\<exists>props a s. c = Object props \<and>
         map_of props ''accessKeyId'' = Some (String a) \<and>
         map_of props ''secretAccessKey'' = Some (String s) \<and>
         trim a \<noteq> [] \<and> trim s \<noteq> [])"
  proof (cases c)
    case (Object props)
    show ?thesis
    proof (cases "map_of props ''accessKeyId''")
      case None
      with Object show ?thesis by (simp add: accepts_def validateCredentials_def bindE_def)
    next
      case (Some a)
      show ?thesis
      proof (cases "map_of props ''secretAccessKey''")
        case None
        with Some Object show ?thesis by (simp add: accepts_def validateCredentials_def bindE_def)
      next
        case s: (Some s)
        have ne: "trim t \<noteq> [] \<Longrightarrow> t \<noteq> []" for t
          by (auto simp: trim_def)
        from s Some Object show ?thesis
          by (cases a; cases s) (auto simp: accepts_def validateCredentials_def bindE_def dest: ne)
      qed
    qed
  qed (simp_all add: accepts_def validateCredentials_def bindE_def)
qed

theorem validateCredentials_accepts_witness:
  "accepts (Object [(''accessKeyId'', String [0x41, 0x4B]), (''secretAccessKey'', String [0x20, 0x73])]) \<and>
   \<not> accepts (Object [(''accessKeyId'', String [0x41, 0x4B]), (''secretAccessKey'', String [0x20, 0x09])]) \<and>
   \<not> accepts (Object [(''accessKeyId'', Number 7), (''secretAccessKey'', String [0x73])]) \<and>
   \<not> accepts (Object [(''secretAccessKey'', String [0x73])]) \<and>
   \<not> accepts Null"
proof -
  have t1: "trim [0x41, 0x4B] \<noteq> []" "trim [0x20, 0x73] \<noteq> []" "trim [0x20, 0x09] = []"
    by (simp_all add: trim_def isWhiteSpace_def)
  show ?thesis
    using validateCredentials_accepts
            [of "Object [(''accessKeyId'', String [0x41, 0x4B]), (''secretAccessKey'', String [0x20, 0x73])]"]
          validateCredentials_accepts
            [of "Object [(''accessKeyId'', String [0x41, 0x4B]), (''secretAccessKey'', String [0x20, 0x09])]"]
          validateCredentials_accepts
            [of "Object [(''accessKeyId'', Number 7), (''secretAccessKey'', String [0x73])]"]
          validateCredentials_accepts [of "Object [(''secretAccessKey'', String [0x73])]"]
          validateCredentials_accepts [of Null]
    by (simp add: t1 isWhiteSpace_def)
qed

section \<open>Claims about the date filter\<close>

lemma strictEq_Some: "strictEq a (Some b) \<longleftrightarrow> a = Some b"
  by (cases a) simp_all

text \<open>
  C9: at any current time, \<open>day\<close> keeps exactly the entries whose creation date has the
  year, month and day of the current local date, \<open>month\<close> those with its year and month,
  \<open>year\<close> those with its year, in the order of the list, and \<open>all\<close> keeps the list as it
  is.  A creation time outside the range of dates matches nothing.
\<close>

theorem filterLogGroupsByDate_filters:
  assumes "validTime (clock w)"
  shows "filterLogGroupsByDate w gs ''day'' =
           filter (\<lambda>g. validTime (creationTime g) \<and>
                        localDay w (creationTime g) = localDay w (clock w)) gs \<and>
         filterLogGroupsByDate w gs ''month'' =
           filter (\<lambda>g. validTime (creationTime g) \<and>
                        fst (localDay w (creationTime g)) = fst (localDay w (clock w)) \<and>
                        fst (snd (localDay w (creationTime g))) =
                          fst (snd (localDay w (clock w)))) gs \<and>
         filterLogGroupsByDate w gs ''year'' =
           filter (\<lambda>g. validTime (creationTime g) \<and>
                        fst (localDay w (creationTime g)) = fst (localDay w (clock w))) gs \<and>
         filterLogGroupsByDate w gs ''all'' = gs"
proof -
  have y: "getFullYear (localTZA w) t =
      (if validTime t then Some (fst (localDay w t)) else None)" for t
    by (simp add: getFullYear_def localFields_def localDay_def)
  have m: "getMonth (localTZA w) t =
      (if validTime t then Some (fst (snd (localDay w t))) else None)" for t
    by (simp add: getMonth_def localFields_def localDay_def)
  have d: "getDate (localTZA w) t =
      (if validTime t then Some (snd (snd (localDay w t))) else None)" for t
    by (simp add: getDate_def localFields_def localDay_def)
  have day: "filterLogGroupsByDate w gs ''day'' =
           filter (\<lambda>g. validTime (creationTime g) \<and>
                        localDay w (creationTime g) = localDay w (clock w)) gs"
    unfolding filterLogGroupsByDate_def Let_def
    using assms
    by (intro filter_cong [OF refl])
       (auto simp: y m d strictEq_Some prod_eq_iff)
  have month: "filterLogGroupsByDate w gs ''month'' =
           filter (\<lambda>g. validTime (creationTime g) \<and>
                        fst (localDay w (creationTime g)) = fst (localDay w (clock w)) \<and>
                        fst (snd (localDay w (creationTime g))) =
                          fst (snd (localDay w (clock w)))) gs"
    unfolding filterLogGroupsByDate_def Let_def
    using assms
    by (intro filter_cong [OF refl])
       (auto simp: y m strictEq_Some)
  have year: "filterLogGroupsByDate w gs ''year'' =
           filter (\<lambda>g. validTime (creationTime g) \<and>
                        fst (localDay w (creationTime g)) = fst (localDay w (clock w))) gs"
    unfolding filterLogGroupsByDate_def Let_def
    using assms
    by (intro filter_cong [OF refl])
       (auto simp: y strictEq_Some)
  have all: "filterLogGroupsByDate w gs ''all'' = gs"
    by (simp add: filterLogGroupsByDate_def)
  from day month year all show ?thesis by blast
qed

lemma localDay_examples:
  "localDay dateWorld 1730419200000 = (2024, 10, 1)"
  "localDay dateWorld 1730415600001 = (2024, 10, 1)"
  "localDay dateWorld 1730415599999 = (2024, 9, 31)"
  "localDay dateWorld 1727740800000 = (2024, 9, 1)"
  "localDay dateWorld 1700000000000 = (2023, 10, 14)"
  by code_simp+

theorem filterLogGroupsByDate_filters_witness:
  "map logGroupName (filterLogGroupsByDate dateWorld datedGroups ''day'') = [''/a/today''] \<and>
   map logGroupName (filterLogGroupsByDate dateWorld datedGroups ''month'') = [''/a/today''] \<and>
   map logGroupName (filterLogGroupsByDate dateWorld datedGroups ''year'') =
     [''/a/today'', ''/a/october'', ''/a/yesterday''] \<and>
   filterLogGroupsByDate dateWorld datedGroups ''all'' = datedGroups"
proof -
  have valid: "validTime (clock dateWorld)"
    by (simp add: validTime_def dateWorld_def emptyWorld_def)
  have now: "clock dateWorld = 1730419200000"
    by (simp add: dateWorld_def emptyWorld_def)
  from filterLogGroupsByDate_filters [OF valid, of datedGroups] show ?thesis
    by (simp add: now localDay_examples datedGroups_def validTime_def)
qed

section \<open>Claims about the keypress listener\<close>

text \<open>
  C10: the listener clears the timer and leaves raw mode exactly when the input is the
  string \<open>q\<close>; on any other input it performs no action and the terminal is unchanged.
\<close>

theorem keypress_quit_only:
  "((ClearInterval \<in> set (stdin_on_data key) \<and> SetRawMode False \<in> set (stdin_on_data key))
      \<longleftrightarrow> key = ''q'') \<and>
   (key \<noteq> ''q'' \<longrightarrow> stdin_on_data key = [] \<and> keypress key t = t) \<and>
   (key = ''q'' \<longrightarrow> \<not> timerActive (keypress key t) \<and> \<not> rawMode (keypress key t) \<and>
      \<not> stdinFlowing (keypress key t))"
  by (simp add: stdin_on_data_def keypress_def)

theorem keypress_quit_only_witness:
  "keypress ''q'' \<lparr>timerActive = True, rawMode = True, stdinFlowing = True, console = [],
                    backPrompts = 0\<rparr> =
     \<lparr>timerActive = False, rawMode = False, stdinFlowing = False,
      console = [''Stopped streaming logs.''], backPrompts = 1\<rparr> \<and>
   keypress ''Q'' \<lparr>timerActive = True, rawMode = True, stdinFlowing = True, console = [],
                    backPrompts = 0\<rparr> =
     \<lparr>timerActive = True, rawMode = True, stdinFlowing = True, console = [], backPrompts = 0\<rparr> \<and>
   keypress ''qq'' \<lparr>timerActive = True, rawMode = True, stdinFlowing = True, console = [],
                    backPrompts = 0\<rparr> =
     \<lparr>timerActive = True, rawMode = True, stdinFlowing = True, console = [], backPrompts = 0\<rparr>"
proof -
  let ?t = "\<lparr>timerActive = True, rawMode = True, stdinFlowing = True, console = [],
             backPrompts = 0\<rparr>"
  have "''Q'' \<noteq> ''q''" "''qq'' \<noteq> ''q''" by simp_all
  with keypress_quit_only [of "''Q''" ?t] keypress_quit_only [of "''qq''" ?t]
  have "keypress ''Q'' ?t = ?t" "keypress ''qq'' ?t = ?t" by blast+
  moreover have "keypress ''q'' ?t = \<lparr>timerActive = False, rawMode = False, stdinFlowing = False,
      console = [''Stopped streaming logs.''], backPrompts = 1\<rparr>"
    by (simp add: keypress_def stdin_on_data_def)
  ultimately show ?thesis by simp
qed

end
